theory Spec2Isabelle
  imports Complex_Main
begin

section \<open>JavaScript values\<close>

text \<open>
  The server (\<^verbatim>\<open>server/server.js\<close>) keeps one trip as a JSON document and
  recomputes every member's derived figures in \<^verbatim>\<open>recalculateState\<close>. The code is
  dynamically typed: it tests \<^verbatim>\<open>typeof x !== 'number'\<close>, uses \<^verbatim>\<open>x || 0\<close> and
  \<^verbatim>\<open>parseFloat\<close>, and a missing budget turns into \<^verbatim>\<open>NaN\<close>. The embedding therefore
  keeps JavaScript's primitive values.

  Numbers are exact rationals plus \<^verbatim>\<open>NaN\<close>: every arithmetic operation of the source is
  one function below, which returns the exact result where the source returns that result
  rounded to binary64. The two infinities and the sign of zero are not modelled. The
  statements on the finalization formulas, on the shares of an expense and on the expected
  contribution are worded through these operations, in the order in which the source
  performs them; where the rounding itself decides, in the sum of the expected
  contributions, it is given by \<open>nearestDouble\<close> in the section on binary floating point. The documents evaluated as examples hold numbers on which the
  operations of the source are exact up to the final division by 100, the large budget of
  \<open>bigBudgetTrip\<close> apart.
\<close>

datatype jsnum = NaN | Fin rat

fun num_add :: "jsnum \<Rightarrow> jsnum \<Rightarrow> jsnum" where
  "num_add (Fin a) (Fin b) = Fin (a + b)"
| "num_add _ _ = NaN"

fun num_sub :: "jsnum \<Rightarrow> jsnum \<Rightarrow> jsnum" where
  "num_sub (Fin a) (Fin b) = Fin (a - b)"
| "num_sub _ _ = NaN"

fun num_mul :: "jsnum \<Rightarrow> jsnum \<Rightarrow> jsnum" where
  "num_mul (Fin a) (Fin b) = Fin (a * b)"
| "num_mul _ _ = NaN"

text \<open>
  Division. The source only divides by a length it has tested to be positive and by the
  constant 100, so the value chosen for a zero divisor (JavaScript gives an infinity or
  \<^verbatim>\<open>NaN\<close>) is never used.
\<close>

fun num_div :: "jsnum \<Rightarrow> jsnum \<Rightarrow> jsnum" where
  "num_div (Fin a) (Fin b) = (if b = 0 then NaN else Fin (a / b))"
| "num_div _ _ = NaN"

text \<open>\<^verbatim>\<open>Math.max\<close> of two numbers: \<^verbatim>\<open>NaN\<close> as soon as one argument is.\<close>

fun math_max :: "jsnum \<Rightarrow> jsnum \<Rightarrow> jsnum" where
  "math_max (Fin a) (Fin b) = Fin (max a b)"
| "math_max _ _ = NaN"

text \<open>\<^verbatim>\<open>Math.round\<close>: the nearest integer, a tie going towards plus infinity.\<close>

fun math_round :: "jsnum \<Rightarrow> jsnum" where
  "math_round (Fin a) = Fin (of_int \<lfloor>a + 1 / 2\<rfloor>)"
| "math_round NaN = NaN"

text \<open>\<^verbatim>\<open>n || 0\<close> on a number: \<^verbatim>\<open>NaN\<close> and zero are falsy.\<close>

fun num_or_zero :: "jsnum \<Rightarrow> jsnum" where
  "num_or_zero NaN = Fin 0"
| "num_or_zero (Fin a) = Fin a"

datatype jsval = JUndefined | JNull | JBool bool | JNum jsnum | JStr string

fun truthy :: "jsval \<Rightarrow> bool" where
  "truthy JUndefined = False"
| "truthy JNull = False"
| "truthy (JBool b) = b"
| "truthy (JNum NaN) = False"
| "truthy (JNum (Fin a)) = (a \<noteq> 0)"
| "truthy (JStr s) = (s \<noteq> [])"

fun isNumber :: "jsval \<Rightarrow> bool" where
  "isNumber (JNum n) = True"
| "isNumber _ = False"

fun isString :: "jsval \<Rightarrow> bool" where
  "isString (JStr s) = True"
| "isString _ = False"

text \<open>\<^verbatim>\<open>a === b\<close> on primitives: same type and value, and \<^verbatim>\<open>NaN\<close> equals nothing.\<close>

definition strictEq :: "jsval \<Rightarrow> jsval \<Rightarrow> bool" where
  "strictEq a b = (a = b \<and> a \<noteq> JNum NaN)"

text \<open>\<^verbatim>\<open>a || b\<close>.\<close>

definition jsOr :: "jsval \<Rightarrow> jsval \<Rightarrow> jsval" where
  "jsOr a b = (if truthy a then a else b)"

text \<open>
  What the JavaScript runtime supplies and the repository does not define: the numeric
  reading of a string (\<^verbatim>\<open>ToNumber\<close>), the prefix parse of \<^verbatim>\<open>parseFloat\<close> on a string,
  the printing of a number, and the text produced by
  \<^verbatim>\<open>Date.now().toString() + Math.random().toString(36).substr(2, 5)\<close> for the member
  at a given position. They are parameters: every theorem holds for any runtime.
\<close>

record runtime =
  stringToNumber :: "string \<Rightarrow> jsnum"
  parseFloatString :: "string \<Rightarrow> jsnum"
  numberToString :: "jsnum \<Rightarrow> string"
  newId :: "nat \<Rightarrow> string"

fun toNumber :: "runtime \<Rightarrow> jsval \<Rightarrow> jsnum" where
  "toNumber rt JUndefined = NaN"
| "toNumber rt JNull = Fin 0"
| "toNumber rt (JBool b) = Fin (if b then 1 else 0)"
| "toNumber rt (JNum n) = n"
| "toNumber rt (JStr s) = stringToNumber rt s"

fun toString :: "runtime \<Rightarrow> jsval \<Rightarrow> string" where
  "toString rt JUndefined = ''undefined''"
| "toString rt JNull = ''null''"
| "toString rt (JBool b) = (if b then ''true'' else ''false'')"
| "toString rt (JNum n) = numberToString rt n"
| "toString rt (JStr s) = s"

text \<open>
  \<^verbatim>\<open>parseFloat(v)\<close> parses the text of \<^verbatim>\<open>v\<close>. A number prints and parses back to
  itself; \<^verbatim>\<open>undefined\<close>, \<^verbatim>\<open>null\<close>, \<^verbatim>\<open>true\<close> and \<^verbatim>\<open>false\<close> start with no numeral.
\<close>

fun parseFloat :: "runtime \<Rightarrow> jsval \<Rightarrow> jsnum" where
  "parseFloat rt (JNum n) = n"
| "parseFloat rt (JStr s) = parseFloatString rt s"
| "parseFloat rt _ = NaN"

text \<open>\<^verbatim>\<open>a + b\<close>: concatenation when an operand is a string, numeric addition otherwise.\<close>

definition jsPlus :: "runtime \<Rightarrow> jsval \<Rightarrow> jsval \<Rightarrow> jsval" where
  "jsPlus rt a b =
     (if isString a \<or> isString b then JStr (toString rt a @ toString rt b)
      else JNum (num_add (toNumber rt a) (toNumber rt b)))"

text \<open>\<^verbatim>\<open>a - b\<close>: always numeric.\<close>

definition jsMinus :: "runtime \<Rightarrow> jsval \<Rightarrow> jsval \<Rightarrow> jsnum" where
  "jsMinus rt a b = num_sub (toNumber rt a) (toNumber rt b)"

section \<open>The trip document\<close>

text \<open>
  A member object. The three override flags are read only through \<^verbatim>\<open>!m.flag\<close>, so
  they are kept as their truthiness. \<open>id_m\<close> is the member's \<^verbatim>\<open>id\<close>.
\<close>

record member =
  id_m :: jsval
  name :: jsval
  expectedContribution :: jsval
  actualContribution :: jsval
  personal :: jsval
  reimbursed :: jsval
  remainingContribution :: jsval
  balance :: jsval
  expenseShare :: jsval
  customExpected :: bool
  customPersonal :: bool
  customBalance :: bool

text \<open>
  An expense. \<open>splitBetween\<close> is \<open>Some\<close> list when the property holds an array and
  \<open>None\<close> otherwise (absent, or not an array: both fail the source's
  \<^verbatim>\<open>e.splitBetween && Array.isArray(e.splitBetween)\<close> test).
\<close>

record expense =
  amount :: jsval
  paidBy :: jsval
  splitBetween :: "jsval list option"

record contributionRequest =
  id_c :: jsval
  memberId_c :: jsval
  amount_c :: jsval

record deletionRequest =
  id_d :: jsval
  memberId_d :: jsval

text \<open>
  The document of \<^verbatim>\<open>data.json\<close>. An array that is missing from the document is
  \<open>None\<close>. Fields no modelled operation reads (trip name, code, date, PIN, the other
  queues) are left to the record's extension.

  The documents of the model are those the endpoints write: \<open>members\<close> and \<open>expenses\<close>
  are arrays of objects, and the fields read are primitive values or absent. A document
  edited by hand may hold something else in these places, \<^verbatim>\<open>null\<close> as an entry of
  \<open>members\<close> for instance, on which \<^verbatim>\<open>m.customExpected\<close> throws a \<^verbatim>\<open>TypeError\<close>; such
  documents have no counterpart in the record, and no statement below covers them.
\<close>

record trip =
  budget :: jsval
  members :: "member list option"
  expenses :: "expense list option"
  pendingContributions :: "contributionRequest list"
  pendingDeletions :: "deletionRequest list"

datatype error = TypeError

section \<open>recalculateState\<close>

text \<open>
  \<^verbatim>\<open>array.find(p)\<close> followed by an in-place change of the object found: the first
  element satisfying \<open>p\<close> is replaced by its image, the rest is untouched.
\<close>

fun findUpdate :: "('a \<Rightarrow> bool) \<Rightarrow> ('a \<Rightarrow> 'a) \<Rightarrow> 'a list \<Rightarrow> 'a list" where
  "findUpdate p f [] = []"
| "findUpdate p f (x # xs) = (if p x then f x # xs else x # findUpdate p f xs)"

text \<open>The body of the first \<^verbatim>\<open>data.members.forEach\<close> (lines 156 to 169).\<close>

definition initMember :: "runtime \<Rightarrow> jsnum \<Rightarrow> nat \<Rightarrow> member \<Rightarrow> member" where
  "initMember rt expected i m =
     (let m1 = (if \<not> truthy (id_m m) then m\<lparr>id_m := JStr (newId rt i)\<rparr> else m);
          m2 = (if \<not> customExpected m1 then m1\<lparr>expectedContribution := JNum expected\<rparr> else m1);
          m3 = (if \<not> customPersonal m2 then m2\<lparr>personal := JNum (Fin 0)\<rparr> else m2);
          m4 = (if \<not> isNumber (reimbursed m3) then m3\<lparr>reimbursed := JNum (Fin 0)\<rparr> else m3)
      in if \<not> isNumber (actualContribution m4)
         then m4\<lparr>actualContribution := JNum (Fin 0)\<rparr> else m4)"

text \<open>The body of the second \<^verbatim>\<open>forEach\<close> (lines 172 to 177).\<close>

definition resetShare :: "member \<Rightarrow> member" where
  "resetShare m =
     (let m1 = m\<lparr>expenseShare := JNum (Fin 0)\<rparr>
      in if \<not> customPersonal m1 then m1\<lparr>personal := JNum (Fin 0)\<rparr> else m1)"

text \<open>The list \<^verbatim>\<open>splitMembers\<close> of one expense (lines 191 to 202).\<close>

definition splitMembers :: "expense \<Rightarrow> member list \<Rightarrow> jsval list" where
  "splitMembers e ms =
     (case splitBetween e of
        Some (s # ss) \<Rightarrow> s # ss
      | _ \<Rightarrow>
          if truthy (paidBy e) then
            (if paidBy e = JStr ''all_members'' \<or> paidBy e = JStr ''pool''
             then map id_m ms else [paidBy e])
          else [])"

text \<open>Crediting the payer (lines 183 to 188).\<close>

definition creditPayer :: "runtime \<Rightarrow> jsnum \<Rightarrow> expense \<Rightarrow> member list \<Rightarrow> member list" where
  "creditPayer rt amt e ms =
     (if truthy (paidBy e) \<and> paidBy e \<noteq> JStr ''pool'' then
        findUpdate (\<lambda>m. strictEq (id_m m) (paidBy e))
          (\<lambda>payer. if \<not> customPersonal payer
                    then payer\<lparr>personal := jsPlus rt (personal payer) (JNum amt)\<rparr>
                    else payer) ms
      else ms)"

text \<open>Charging one named member its share (lines 207 to 212).\<close>

definition chargeMember :: "runtime \<Rightarrow> jsnum \<Rightarrow> jsval \<Rightarrow> member list \<Rightarrow> member list" where
  "chargeMember rt sharePerMember memberId ms =
     findUpdate (\<lambda>m. strictEq (id_m m) memberId)
       (\<lambda>member. member\<lparr>expenseShare := jsPlus rt (expenseShare member) (JNum sharePerMember)\<rparr>) ms"

text \<open>The body of \<^verbatim>\<open>data.expenses.forEach\<close> (lines 179 to 214).\<close>

definition allocExpense :: "runtime \<Rightarrow> expense \<Rightarrow> member list \<Rightarrow> member list" where
  "allocExpense rt e ms =
     (let amt = num_or_zero (parseFloat rt (amount e));
          ms1 = creditPayer rt amt e ms;
          split = splitMembers e ms1
      in if length split > 0 then
           (let sharePerMember = num_div amt (Fin (of_nat (length split)))
            in fold (chargeMember rt sharePerMember) split ms1)
         else ms1)"

text \<open>The body of the last \<^verbatim>\<open>forEach\<close> (lines 217 to 227).\<close>

definition finalize :: "runtime \<Rightarrow> member \<Rightarrow> member" where
  "finalize rt m =
     (let actual = jsOr (actualContribution m) (JNum (Fin 0));
          m1 = m\<lparr>remainingContribution :=
                   JNum (math_max (jsMinus rt (expectedContribution m) actual) (Fin 0))\<rparr>;
          netPersonal =
            math_max (jsMinus rt (personal m1) (jsOr (reimbursed m1) (JNum (Fin 0)))) (Fin 0)
      in if \<not> customBalance m1 then
           (let bal = jsMinus rt (jsPlus rt actual (JNum netPersonal)) (expenseShare m1)
            in m1\<lparr>balance := JNum (num_div (math_round (num_mul bal (Fin 100))) (Fin 100))\<rparr>)
         else m1)"

text \<open>The share \<^verbatim>\<open>expected\<close> of line 151.\<close>

definition expectedShare :: "runtime \<Rightarrow> jsval \<Rightarrow> nat \<Rightarrow> jsnum" where
  "expectedShare rt b actualMemberCount =
     (if actualMemberCount > 0
      then num_div (toNumber rt b) (Fin (of_nat actualMemberCount)) else Fin 0)"

definition initMembers :: "runtime \<Rightarrow> jsnum \<Rightarrow> member list \<Rightarrow> member list" where
  "initMembers rt expected ms =
     map resetShare (map (\<lambda>(i, m). initMember rt expected i m) (enumerate 0 ms))"

text \<open>
  The whole function. A missing \<^verbatim>\<open>members\<close> array is replaced by the empty one; a
  missing \<^verbatim>\<open>expenses\<close> array makes \<^verbatim>\<open>data.expenses.forEach\<close> throw a
  \<^verbatim>\<open>TypeError\<close>, which no caller but the start-up code catches.
\<close>

definition recalculateState :: "runtime \<Rightarrow> 'a trip_scheme \<Rightarrow> error + 'a trip_scheme" where
  "recalculateState rt data =
     (let ms0 = (case members data of None \<Rightarrow> [] | Some ms \<Rightarrow> ms);
          actualMemberCount = length ms0;
          expected = expectedShare rt (budget data) actualMemberCount;
          ms2 = initMembers rt expected ms0
      in case expenses data of
           None \<Rightarrow> Inl TypeError
         | Some es \<Rightarrow>
             Inr (data\<lparr>members := Some (map (finalize rt) (fold (allocExpense rt) es ms2))\<rparr>))"

section \<open>The request handlers\<close>

text \<open>
  A handler reads the stored document, answers, and possibly stores a new document. It is
  modelled as a function from the stored document and the request fields to the answer and
  the document stored afterwards. A handler that throws is answered by the framework with
  status 500 and stores nothing.
\<close>

datatype response = Ok | BadRequest | Forbidden | NotFound | ServerError

text \<open>\<^verbatim>\<open>array.findIndex(p)\<close>, with \<open>None\<close> for \<open>-1\<close>.\<close>

fun findIndex :: "('a \<Rightarrow> bool) \<Rightarrow> 'a list \<Rightarrow> nat option" where
  "findIndex p [] = None"
| "findIndex p (x # xs) = (if p x then Some 0 else map_option Suc (findIndex p xs))"

text \<open>\<^verbatim>\<open>array.splice(i, 1)\<close>.\<close>

definition removeAt :: "nat \<Rightarrow> 'a list \<Rightarrow> 'a list" where
  "removeAt i xs = take i xs @ drop (Suc i) xs"

text \<open>\<^verbatim>\<open>recalculateState(data); writeData(data)\<close> and the answer 200.\<close>

definition recalcAndWrite ::
  "runtime \<Rightarrow> 'a trip_scheme \<Rightarrow> 'a trip_scheme \<Rightarrow> response \<times> 'a trip_scheme" where
  "recalcAndWrite rt stored data =
     (case recalculateState rt data of Inl e \<Rightarrow> (ServerError, stored) | Inr d \<Rightarrow> (Ok, d))"

text \<open>\<^verbatim>\<open>POST /api/members/contribute\<close> (lines 407 to 423).\<close>

definition contribute ::
  "runtime \<Rightarrow> 'a trip_scheme \<Rightarrow> jsval \<Rightarrow> jsval \<Rightarrow> jsval \<Rightarrow> response \<times> 'a trip_scheme" where
  "contribute rt data ident amt isAdmin =
     (case members data of
        None \<Rightarrow> (ServerError, data)
      | Some ms \<Rightarrow>
          if find (\<lambda>m. strictEq (id_m m) ident) ms = None then (NotFound, data)
          else
            (let contrib = parseFloat rt amt
             in if contrib = NaN then (BadRequest, data)
                else if \<not> truthy isAdmin then (Forbidden, data)
                else recalcAndWrite rt data
                  (data\<lparr>members := Some (findUpdate (\<lambda>m. strictEq (id_m m) ident)
                     (\<lambda>member. member\<lparr>actualContribution :=
                        jsPlus rt (jsOr (actualContribution member) (JNum (Fin 0))) (JNum contrib)\<rparr>)
                     ms)\<rparr>)))"

text \<open>\<^verbatim>\<open>POST /api/contributions/approve\<close> (lines 444 to 464).\<close>

definition approveContribution ::
  "runtime \<Rightarrow> 'a trip_scheme \<Rightarrow> contributionRequest \<Rightarrow> error + 'a trip_scheme" where
  "approveContribution rt data request =
     (case members data of
        None \<Rightarrow> Inl TypeError
      | Some ms \<Rightarrow>
          if find (\<lambda>m. strictEq (id_m m) (memberId_c request)) ms = None then Inr data
          else recalculateState rt
            (data\<lparr>members := Some (findUpdate (\<lambda>m. strictEq (id_m m) (memberId_c request))
               (\<lambda>member. member\<lparr>actualContribution :=
                  jsPlus rt (jsOr (actualContribution member) (JNum (Fin 0))) (amount_c request)\<rparr>)
               ms)\<rparr>))"

definition contributionsApprove ::
  "runtime \<Rightarrow> 'a trip_scheme \<Rightarrow> jsval \<Rightarrow> jsval \<Rightarrow> response \<times> 'a trip_scheme" where
  "contributionsApprove rt data ident action =
     (case findIndex (\<lambda>r. strictEq (id_c r) ident) (pendingContributions data) of
        None \<Rightarrow> (NotFound, data)
      | Some requestIndex \<Rightarrow>
          (case (if action = JStr ''approve''
                 then approveContribution rt data (pendingContributions data ! requestIndex)
                 else Inr data) of
             Inl e \<Rightarrow> (ServerError, data)
           | Inr d \<Rightarrow>
               (Ok, d\<lparr>pendingContributions := removeAt requestIndex (pendingContributions d)\<rparr>)))"

text \<open>\<^verbatim>\<open>POST /api/members/refund\<close> (lines 486 to 502).\<close>

definition refund ::
  "runtime \<Rightarrow> 'a trip_scheme \<Rightarrow> jsval \<Rightarrow> jsval \<Rightarrow> response \<times> 'a trip_scheme" where
  "refund rt data ident amt =
     (case members data of
        None \<Rightarrow> (ServerError, data)
      | Some ms \<Rightarrow>
          if find (\<lambda>m. strictEq (id_m m) ident) ms = None then (NotFound, data)
          else
            (case parseFloat rt amt of
               NaN \<Rightarrow> (BadRequest, data)
             | Fin refundAmount \<Rightarrow>
                 if refundAmount \<le> 0 then (BadRequest, data)
                 else recalcAndWrite rt data
                   (data\<lparr>members := Some (findUpdate (\<lambda>m. strictEq (id_m m) ident)
                      (\<lambda>member. member\<lparr>actualContribution :=
                         JNum (jsMinus rt (jsOr (actualContribution member) (JNum (Fin 0)))
                                 (JNum (Fin refundAmount)))\<rparr>)
                      ms)\<rparr>)))"

text \<open>\<^verbatim>\<open>DELETE /api/members/:id\<close> (lines 584 to 601).\<close>

definition deleteMember ::
  "runtime \<Rightarrow> 'a trip_scheme \<Rightarrow> jsval \<Rightarrow> response \<times> 'a trip_scheme" where
  "deleteMember rt data ident =
     (case members data of
        None \<Rightarrow> (ServerError, data)
      | Some ms \<Rightarrow>
          (case findIndex (\<lambda>m. strictEq (id_m m) ident) ms of
             None \<Rightarrow> (NotFound, data)
           | Some memberIdx \<Rightarrow>
               if memberIdx = 0 then (Forbidden, data)
               else recalcAndWrite rt data (data\<lparr>members := Some (removeAt memberIdx ms)\<rparr>)))"

text \<open>\<^verbatim>\<open>POST /api/members/delete-approve\<close> (lines 626 to 646).\<close>

definition approveDeletion ::
  "runtime \<Rightarrow> 'a trip_scheme \<Rightarrow> deletionRequest \<Rightarrow> error + 'a trip_scheme" where
  "approveDeletion rt data request =
     (case members data of
        None \<Rightarrow> Inl TypeError
      | Some ms \<Rightarrow>
          (case findIndex (\<lambda>m. strictEq (id_m m) (memberId_d request)) ms of
             None \<Rightarrow> Inr data
           | Some memberIndex \<Rightarrow>
               if memberIndex \<noteq> 0
               then recalculateState rt (data\<lparr>members := Some (removeAt memberIndex ms)\<rparr>)
               else Inr data))"

definition deleteApprove ::
  "runtime \<Rightarrow> 'a trip_scheme \<Rightarrow> jsval \<Rightarrow> jsval \<Rightarrow> response \<times> 'a trip_scheme" where
  "deleteApprove rt data ident action =
     (case findIndex (\<lambda>r. strictEq (id_d r) ident) (pendingDeletions data) of
        None \<Rightarrow> (NotFound, data)
      | Some requestIndex \<Rightarrow>
          (case (if action = JStr ''approve''
                 then approveDeletion rt data (pendingDeletions data ! requestIndex)
                 else Inr data) of
             Inl e \<Rightarrow> (ServerError, data)
           | Inr d \<Rightarrow> (Ok, d\<lparr>pendingDeletions := removeAt requestIndex (pendingDeletions d)\<rparr>)))"

section \<open>The contribution endpoint of the multi-trip server\<close>

text \<open>\<^verbatim>\<open>a > b\<close> on numbers: false as soon as one is \<^verbatim>\<open>NaN\<close>.\<close>

fun num_gt :: "jsnum \<Rightarrow> jsnum \<Rightarrow> bool" where
  "num_gt (Fin a) (Fin b) = (a > b)"
| "num_gt _ _ = False"

text \<open>
  The same endpoint in the multi-trip version of the server that the repository also
  holds (the handler of \<^verbatim>\<open>/api/members/contribute\<close> that takes a \<^verbatim>\<open>tripCode\<close>), which
  splits an overpayment between \<open>actualContribution\<close> and \<open>personal\<close> before
  recomputing. The lookup of the trip by its code is left out.
\<close>

definition contributeSplitting ::
  "runtime \<Rightarrow> 'a trip_scheme \<Rightarrow> jsval \<Rightarrow> jsval \<Rightarrow> jsval \<Rightarrow> response \<times> 'a trip_scheme" where
  "contributeSplitting rt trip ident amt isAdmin =
     (case members trip of
        None \<Rightarrow> (ServerError, trip)
      | Some ms \<Rightarrow>
          if find (\<lambda>m. strictEq (id_m m) ident) ms = None then (NotFound, trip)
          else
            (let contrib = parseFloat rt amt
             in if contrib = NaN then (BadRequest, trip)
                else if \<not> truthy isAdmin then (Forbidden, trip)
                else recalcAndWrite rt trip
                  (trip\<lparr>members := Some (findUpdate (\<lambda>m. strictEq (id_m m) ident)
                     (\<lambda>member.
                        let remaining = math_max (jsMinus rt (expectedContribution member)
                              (jsOr (actualContribution member) (JNum (Fin 0)))) (Fin 0)
                        in if num_gt contrib remaining \<and> num_gt remaining (Fin 0) then
                             (let excess = num_sub contrib remaining;
                                  member1 = member\<lparr>actualContribution :=
                                    jsPlus rt (jsOr (actualContribution member) (JNum (Fin 0)))
                                      (JNum remaining)\<rparr>
                              in member1\<lparr>personal :=
                                   jsPlus rt (jsOr (personal member1) (JNum (Fin 0))) (JNum excess)\<rparr>)
                           else member\<lparr>actualContribution :=
                                  jsPlus rt (jsOr (actualContribution member) (JNum (Fin 0)))
                                    (JNum contrib)\<rparr>)
                     ms)\<rparr>)))"

section \<open>Auxiliary definitions\<close>

text \<open>The three passes after the expected share has been computed.\<close>

definition pipeline :: "runtime \<Rightarrow> jsnum \<Rightarrow> expense list \<Rightarrow> member list \<Rightarrow> member list" where
  "pipeline rt ex es ms = map (finalize rt) (fold (allocExpense rt) es (initMembers rt ex ms))"

text \<open>What the override flags of a member protect: the flags and the flagged fields.\<close>

definition frozenPart ::
  "member \<Rightarrow> (bool \<times> bool \<times> bool) \<times> jsval option \<times> jsval option \<times> jsval option" where
  "frozenPart m =
     ((customExpected m, customPersonal m, customBalance m),
      (if customExpected m then Some (expectedContribution m) else None),
      (if customPersonal m then Some (personal m) else None),
      (if customBalance m then Some (balance m) else None))"

text \<open>The members of the document a run returns (none when the run throws).\<close>

definition resultMembers :: "error + 'a trip_scheme \<Rightarrow> member list" where
  "resultMembers r =
     (case r of Inl e \<Rightarrow> [] | Inr d \<Rightarrow> (case members d of None \<Rightarrow> [] | Some ms \<Rightarrow> ms))"



text \<open>The finite value of a field (0 for anything else).\<close>

definition finOf :: "jsval \<Rightarrow> rat" where
  "finOf v = (case v of JNum (Fin r) \<Rightarrow> r | _ \<Rightarrow> 0)"


text \<open>The member list the run works on: a missing array counts as empty (line 144).\<close>

definition inputMembers :: "'a trip_scheme \<Rightarrow> member list" where
  "inputMembers data = (case members data of None \<Rightarrow> [] | Some ms \<Rightarrow> ms)"

text \<open>\<^verbatim>\<open>if (typeof v !== 'number') v = 0\<close>.\<close>

definition coerceField :: "jsval \<Rightarrow> jsval" where
  "coerceField v = (if isNumber v then v else JNum (Fin 0))"

text \<open>An expense whose amount does not parse, with the amount replaced by the number 0.\<close>

definition coerceAmount :: "runtime \<Rightarrow> expense \<Rightarrow> expense" where
  "coerceAmount rt e = (if parseFloat rt (amount e) = NaN then e\<lparr>amount := JNum (Fin 0)\<rparr> else e)"

text \<open>
  A member without the two fields the last pass overwrites (the balance only when it is
  not overridden).
\<close>

definition erase :: "member \<Rightarrow> member" where
  "erase m = m\<lparr>remainingContribution := JUndefined,
               balance := (if customBalance m then balance m else JUndefined)\<rparr>"

text \<open>A member without the two accumulators of the expense pass.\<close>

definition base :: "member \<Rightarrow> member" where
  "base m = m\<lparr>expenseShare := JNum (Fin 0),
              personal := (if customPersonal m then personal m else JNum (Fin 0))\<rparr>"

text \<open>The two initialisation loops on one member.\<close>

definition reinit :: "runtime \<Rightarrow> jsnum \<Rightarrow> nat \<Rightarrow> member \<Rightarrow> member" where
  "reinit rt ex i m = resetShare (initMember rt ex i m)"

text \<open>A field that holds a finite number.\<close>

fun isFinite :: "jsval \<Rightarrow> bool" where
  "isFinite (JNum (Fin x)) = True"
| "isFinite _ = False"

text \<open>The value of \<^verbatim>\<open>parseFloat(e.amount) || 0\<close>, which is never \<^verbatim>\<open>NaN\<close>.\<close>

definition expenseAmount :: "runtime \<Rightarrow> expense \<Rightarrow> rat" where
  "expenseAmount rt e = (case parseFloat rt (amount e) of NaN \<Rightarrow> 0 | Fin a \<Rightarrow> a)"

text \<open>
  \<^verbatim>\<open>data.expenses.push(e)\<close>, as the expense endpoints do before recomputing. Without
  an expenses array the source throws here; the model hands the document on unchanged and
  the recomputation that follows fails on it.
\<close>

definition pushExpense :: "'a trip_scheme \<Rightarrow> expense \<Rightarrow> 'a trip_scheme" where
  "pushExpense data e =
     (case expenses data of None \<Rightarrow> data | Some es \<Rightarrow> data\<lparr>expenses := Some (es @ [e])\<rparr>)"

text \<open>The change \<^verbatim>\<open>member.expenseShare += sharePerMember\<close>.\<close>

definition charge :: "runtime \<Rightarrow> jsnum \<Rightarrow> member \<Rightarrow> member" where
  "charge rt sh m = m\<lparr>expenseShare := jsPlus rt (expenseShare m) (JNum sh)\<rparr>"

text \<open>
  The document still has a first member, and it is member \<open>a\<close>: same name, and same id
  when \<open>a\<close> carries one (recomputation rewrites the derived fields and gives an id to a
  member without one).
\<close>

definition keepsAdmin :: "member \<Rightarrow> 'a trip_scheme \<Rightarrow> bool" where
  "keepsAdmin a data =
     (case members data of
        Some (a' # rest') \<Rightarrow> name a' = name a \<and> (if truthy (id_m a) then id_m a' = id_m a else True)
      | _ \<Rightarrow> False)"

section \<open>Example data\<close>

text \<open>A runtime whose string conversions fail and whose generated ids are \<open>new\<close>.\<close>

definition exRt :: runtime where
  "exRt = \<lparr>stringToNumber = (\<lambda>s. NaN), parseFloatString = (\<lambda>s. NaN),
           numberToString = (\<lambda>n. []), newId = (\<lambda>i. ''new'')\<rparr>"

definition mkMember :: "string \<Rightarrow> rat \<Rightarrow> member" where
  "mkMember i paid =
     \<lparr>id_m = JStr i, name = JStr i, expectedContribution = JNum (Fin 0),
      actualContribution = JNum (Fin paid), personal = JNum (Fin 0), reimbursed = JNum (Fin 0),
      remainingContribution = JNum (Fin 0), balance = JNum (Fin 0), expenseShare = JNum (Fin 0),
      customExpected = False, customPersonal = False, customBalance = False\<rparr>"

definition mkTrip :: "rat \<Rightarrow> member list \<Rightarrow> expense list \<Rightarrow> trip" where
  "mkTrip b ms es =
     \<lparr>budget = JNum (Fin b), members = Some ms, expenses = Some es,
      pendingContributions = [], pendingDeletions = []\<rparr>"

text \<open>A member whose three derived fields are all overridden by the administrator.\<close>

definition frozenMember :: member where
  "frozenMember = (mkMember ''f'' 10)
     \<lparr>expectedContribution := JNum (Fin 7), personal := JNum (Fin 8), balance := JNum (Fin 999),
      customExpected := True, customPersonal := True, customBalance := True\<rparr>"

definition frozenExpense :: expense where
  "frozenExpense = \<lparr>amount = JNum (Fin 40), paidBy = JStr ''f'', splitBetween = None\<rparr>"


text \<open>
  Member \<open>a\<close> fronted an expense of 1200 shared with \<open>b\<close> and has been reimbursed 2000,
  more than was fronted.
\<close>

definition overReimbursedTrip :: trip where
  "overReimbursedTrip = mkTrip 10000
     [(mkMember ''a'' 5000)\<lparr>reimbursed := JNum (Fin 2000)\<rparr>, mkMember ''b'' 5000]
     [\<lparr>amount = JNum (Fin 1200), paidBy = JStr ''a'',
       splitBetween = Some [JStr ''a'', JStr ''b'']\<rparr>]"

text \<open>
  Scenario A of the specification: a budget of 30000, six members, five of whom paid 5000
  and one 3000, no expenses.
\<close>

definition scenarioAMembers :: "member list" where
  "scenarioAMembers =
     [mkMember ''m1'' 5000, mkMember ''m2'' 5000, mkMember ''m3'' 5000,
      mkMember ''m4'' 5000, mkMember ''m5'' 5000, mkMember ''m6'' 3000]"

definition scenarioA :: trip where
  "scenarioA = mkTrip 30000 scenarioAMembers []"

text \<open>One member, no expense, and no \<open>budget\<close> property.\<close>

definition noBudgetTrip :: trip where
  "noBudgetTrip = (mkTrip 0 [mkMember ''a'' 0] [])\<lparr>budget := JUndefined\<rparr>"

text \<open>
  A document without a budget whose only member has no \<open>reimbursed\<close> and a textual
  \<open>actualContribution\<close>, and whose only expense has a textual amount.
\<close>

definition malformedExpenses :: "expense list" where
  "malformedExpenses = [\<lparr>amount = JStr ''abc'', paidBy = JStr ''a'', splitBetween = None\<rparr>]"

definition malformedTrip :: trip where
  "malformedTrip = (mkTrip 100
     [(mkMember ''a'' 0)\<lparr>reimbursed := JUndefined, actualContribution := JStr ''abc''\<rparr>]
     malformedExpenses)\<lparr>budget := JUndefined\<rparr>"

text \<open>
  Scenario B of the specification: an expense of 1200 fronted by the first member and
  split between all six.
\<close>

definition scenarioBExpense :: expense where
  "scenarioBExpense = \<lparr>amount = JNum (Fin 1200), paidBy = JStr ''m1'',
     splitBetween = Some [JStr ''m1'', JStr ''m2'', JStr ''m3'', JStr ''m4'', JStr ''m5'', JStr ''m6'']\<rparr>"

text \<open>An expense of 600 in the legacy format, with a given payer and split list.\<close>

definition legacyExpense :: "jsval \<Rightarrow> jsval list option \<Rightarrow> expense" where
  "legacyExpense payer split = \<lparr>amount = JNum (Fin 600), paidBy = payer, splitBetween = split\<rparr>"

text \<open>
  A recomputed trip in which member \<open>a\<close> still owes 1000 of an expected 5000, with a
  pending contribution request of 1500 from \<open>a\<close>.
\<close>

definition overpayTrip :: trip where
  "overpayTrip = (mkTrip 10000
     [(mkMember ''a'' 4000)\<lparr>expectedContribution := JNum (Fin 5000),
         remainingContribution := JNum (Fin 1000), balance := JNum (Fin 4000)\<rparr>,
      (mkMember ''b'' 5000)\<lparr>expectedContribution := JNum (Fin 5000),
         balance := JNum (Fin 5000)\<rparr>] [])
     \<lparr>pendingContributions :=
        [\<lparr>id_c = JStr ''r1'', memberId_c = JStr ''a'', amount_c = JNum (Fin 1500)\<rparr>]\<rparr>"

text \<open>A recomputed trip whose only member has paid 100 of an expected 200.\<close>

definition refundTrip :: trip where
  "refundTrip = mkTrip 200 [(mkMember ''a'' 100)\<lparr>expectedContribution := JNum (Fin 200),
     remainingContribution := JNum (Fin 100), balance := JNum (Fin 100)\<rparr>] []"

text \<open>
  A trip of three members with two pending deletion requests, one naming the administrator
  and one naming the last member.
\<close>

definition adminTrip :: trip where
  "adminTrip = (mkTrip 300 [mkMember ''admin'' 0, mkMember ''b'' 0, mkMember ''c'' 0] [])
     \<lparr>pendingDeletions := [\<lparr>id_d = JStr ''d1'', memberId_d = JStr ''admin''\<rparr>,
                           \<lparr>id_d = JStr ''d2'', memberId_d = JStr ''c''\<rparr>]\<rparr>"


text \<open>Two members without payments, and an expense of 90 whose split list names \<open>a\<close> twice.\<close>

definition duplicateSplitExpense :: expense where
  "duplicateSplitExpense = \<lparr>amount = JNum (Fin 90), paidBy = JStr ''pool'',
     splitBetween = Some [JStr ''a'', JStr ''a'', JStr ''b'']\<rparr>"

definition twoMemberTrip :: trip where
  "twoMemberTrip = mkTrip 0 [mkMember ''a'' 0, mkMember ''b'' 0] []"

text \<open>Six members and a budget of \<open>2 * 10 ^ 15\<close>, which six does not divide.\<close>

definition bigBudgetTrip :: trip where
  "bigBudgetTrip = mkTrip 2000000000000000
     [mkMember ''m1'' 0, mkMember ''m2'' 0, mkMember ''m3'' 0,
      mkMember ''m4'' 0, mkMember ''m5'' 0, mkMember ''m6'' 0] []"

section \<open>Binary floating point\<close>

text \<open>
  The source computes on IEEE 754 binary64 numbers. The functions of this section give
  the rounding of an exact result to binary64, for the statements on the sum of the
  expected contributions, where the rounding of the quotient \<^verbatim>\<open>data.budget /
  actualMemberCount\<close> decides. \<open>ilog2 n\<close> is the position of the leading bit of a
  positive integer.
\<close>

function ilog2 :: "int \<Rightarrow> int" where
  "ilog2 n = (if n < 2 then 0 else 1 + ilog2 (n div 2))"
  by pat_completeness auto
termination
  by (relation "measure nat") auto

declare ilog2.simps [simp del]

definition pow2 :: "int \<Rightarrow> rat" where
  "pow2 k = (if 0 \<le> k then 2 ^ nat k else 1 / 2 ^ nat (- k))"

text \<open>The binary exponent of a nonzero rational: \<open>2 ^ e \<le> \<bar>x\<bar> < 2 ^ (e + 1)\<close>.\<close>

definition exponentOf :: "rat \<Rightarrow> int" where
  "exponentOf x =
     (let (p, q) = quotient_of \<bar>x\<bar>;
          e0 = ilog2 p - ilog2 q
      in if pow2 e0 \<le> \<bar>x\<bar> then e0 else e0 - 1)"

text \<open>The nearest integer, a tie going to the even one.\<close>

definition roundHalfEven :: "rat \<Rightarrow> int" where
  "roundHalfEven y =
     (let k = \<lfloor>y\<rfloor>; d = y - of_int k
      in if d < 1 / 2 then k else if 1 / 2 < d then k + 1
         else if even k then k else k + 1)"

text \<open>
  The binary64 number nearest to \<open>x\<close>, ties to even: 53 significant bits, exponents from
  \<open>-1022\<close> to \<open>1023\<close>, subnormal numbers below. \<open>None\<close> when the result overflows to an
  infinity.
\<close>

definition nearestDouble :: "rat \<Rightarrow> rat option" where
  "nearestDouble x =
     (if x = 0 then Some 0
      else if 1023 < exponentOf x then None
      else
        (let e = max (exponentOf x) (- 1022);
             quantum = pow2 (e - 52);
             n = roundHalfEven (\<bar>x\<bar> / quantum)
         in if e = 1023 \<and> 9007199254740992 \<le> n then None
            else Some (sgn x * (of_int n * quantum))))"

text \<open>
  The binary64 value of \<^verbatim>\<open>data.budget / actualMemberCount\<close> (line 151) for a budget
  \<open>b\<close> and \<open>n > 0\<close> members: one correctly rounded division.
\<close>

definition expectedDouble :: "rat \<Rightarrow> nat \<Rightarrow> rat option" where
  "expectedDouble b n = nearestDouble (b / of_nat n)"

text \<open>
  \<^verbatim>\<open>sum + m.expectedContribution\<close> in binary64, and the sum of line 230,
  \<^verbatim>\<open>data.members.reduce((sum, m) => sum + m.expectedContribution, 0)\<close>, on the stored
  values \<open>xs\<close>.
\<close>

definition addDouble :: "rat option \<Rightarrow> rat \<Rightarrow> rat option" where
  "addDouble acc x = (case acc of None \<Rightarrow> None | Some s \<Rightarrow> nearestDouble (s + x))"

definition sumDoubles :: "rat list \<Rightarrow> rat option" where
  "sumDoubles xs = foldl addDouble (Some 0) xs"

section \<open>Auxiliary lemmas\<close>

lemma findUpdate_map_inv:
  "(\<And>x. g (f x) = g x) \<Longrightarrow> map g (findUpdate p f xs) = map g xs"
  by (induction xs) auto

lemma frozenPart_initMember: "frozenPart (initMember rt ex i m) = frozenPart m"
  by (simp add: frozenPart_def initMember_def Let_def)

lemma frozenPart_resetShare: "frozenPart (resetShare m) = frozenPart m"
  by (simp add: frozenPart_def resetShare_def Let_def)

lemma frozenPart_finalize: "frozenPart (finalize rt m) = frozenPart m"
  by (simp add: frozenPart_def finalize_def Let_def)

lemma frozenPart_creditPayer: "map frozenPart (creditPayer rt a e ms) = map frozenPart ms"
  unfolding creditPayer_def
  by (simp add: findUpdate_map_inv frozenPart_def)

lemma frozenPart_chargeMember: "map frozenPart (chargeMember rt s i ms) = map frozenPart ms"
  unfolding chargeMember_def
  by (simp add: findUpdate_map_inv frozenPart_def)

lemma frozenPart_charge_fold:
  "map frozenPart (fold (chargeMember rt s) ids ms) = map frozenPart ms"
  by (induction ids arbitrary: ms) (simp_all add: frozenPart_chargeMember)

lemma frozenPart_allocExpense: "map frozenPart (allocExpense rt e ms) = map frozenPart ms"
  by (simp add: allocExpense_def Let_def frozenPart_charge_fold frozenPart_creditPayer)

lemma frozenPart_alloc_fold:
  "map frozenPart (fold (allocExpense rt) es ms) = map frozenPart ms"
  by (induction es arbitrary: ms) (simp_all add: frozenPart_allocExpense)

lemma frozenPart_initMembers: "map frozenPart (initMembers rt ex ms) = map frozenPart ms"
proof -
  have "map frozenPart (initMembers rt ex ms) = map (frozenPart \<circ> snd) (enumerate 0 ms)"
    by (simp add: initMembers_def frozenPart_resetShare frozenPart_initMember comp_def split_def)
  also have "\<dots> = map frozenPart ms"
    by (simp add: map_snd_enumerate flip: map_map)
  finally show ?thesis .
qed

lemma recalculateState_Some:
  "members data = Some ms \<Longrightarrow> expenses data = Some es \<Longrightarrow>
   recalculateState rt data =
     Inr (data\<lparr>members := Some (pipeline rt (expectedShare rt (budget data) (length ms)) es ms)\<rparr>)"
  by (simp add: recalculateState_def pipeline_def Let_def)

lemma frozenPart_pipeline: "map frozenPart (pipeline rt ex es ms) = map frozenPart ms"
proof -
  have "map frozenPart (pipeline rt ex es ms) =
        map frozenPart (fold (allocExpense rt) es (initMembers rt ex ms))"
    by (simp add: pipeline_def frozenPart_finalize)
  then show ?thesis
    by (simp add: frozenPart_alloc_fold frozenPart_initMembers)
qed

lemma frozenPart_eqD:
  assumes "frozenPart a = frozenPart b"
  shows "customBalance b \<Longrightarrow> balance a = balance b"
    and "customExpected b \<Longrightarrow> expectedContribution a = expectedContribution b"
    and "customPersonal b \<Longrightarrow> personal a = personal b"
  using assms by (auto simp: frozenPart_def split: if_splits)

section \<open>Override freeze\<close>

text \<open>
  Claim C6. Whenever \<^verbatim>\<open>recalculateState\<close> runs on a document that has its members and
  expenses arrays, it returns a document with as many members, in the same order, and for
  every position: a member whose \<open>customBalance\<close> flag is set keeps exactly the
  \<open>balance\<close> it had in the input, whatever the other members and the expenses are; a
  member whose \<open>customExpected\<close> flag is set keeps its \<open>expectedContribution\<close>; a member
  whose \<open>customPersonal\<close> flag is set keeps its \<open>personal\<close>.
\<close>

theorem override_freeze:
  assumes "members data = Some ms" and "expenses data = Some es"
  shows "\<exists>data' ms'. recalculateState rt data = Inr data' \<and> members data' = Some ms' \<and>
           length ms' = length ms \<and>
           (\<forall>i < length ms.
              (customBalance (ms ! i) \<longrightarrow> balance (ms' ! i) = balance (ms ! i)) \<and>
              (customExpected (ms ! i) \<longrightarrow>
                 expectedContribution (ms' ! i) = expectedContribution (ms ! i)) \<and>
              (customPersonal (ms ! i) \<longrightarrow> personal (ms' ! i) = personal (ms ! i)))"
proof -
  define ms' where "ms' = pipeline rt (expectedShare rt (budget data) (length ms)) es ms"
  have eq: "map frozenPart ms' = map frozenPart ms"
    unfolding ms'_def by (rule frozenPart_pipeline)
  then have len: "length ms' = length ms" by (rule map_eq_imp_length_eq)
  have fp: "frozenPart (ms' ! i) = frozenPart (ms ! i)" if "i < length ms" for i
  proof -
    have "map frozenPart ms' ! i = map frozenPart ms ! i" using eq by simp
    then show ?thesis using that len by simp
  qed
  have frame: "\<forall>i < length ms.
              (customBalance (ms ! i) \<longrightarrow> balance (ms' ! i) = balance (ms ! i)) \<and>
              (customExpected (ms ! i) \<longrightarrow>
                 expectedContribution (ms' ! i) = expectedContribution (ms ! i)) \<and>
              (customPersonal (ms ! i) \<longrightarrow> personal (ms' ! i) = personal (ms ! i))"
    using fp frozenPart_eqD by blast
  have run: "recalculateState rt data = Inr (data\<lparr>members := Some ms'\<rparr>)"
    unfolding ms'_def by (rule recalculateState_Some [OF assms])
  have "members (data\<lparr>members := Some ms'\<rparr>) = Some ms'" by simp
  with run len frame show ?thesis by blast
qed


theorem override_freeze_witness:
  "members (mkTrip 100 [frozenMember] [frozenExpense]) = Some [frozenMember] \<and>
   expenses (mkTrip 100 [frozenMember] [frozenExpense]) = Some [frozenExpense] \<and>
   customBalance frozenMember \<and> customExpected frozenMember \<and> customPersonal frozenMember \<and>
   (\<exists>data' ms'. recalculateState exRt (mkTrip 100 [frozenMember] [frozenExpense]) = Inr data' \<and>
      members data' = Some ms' \<and> balance (ms' ! 0) = JNum (Fin 999) \<and>
      expectedContribution (ms' ! 0) = JNum (Fin 7) \<and> personal (ms' ! 0) = JNum (Fin 8))"
proof -
  have h1: "members (mkTrip 100 [frozenMember] [frozenExpense]) = Some [frozenMember]"
    and h2: "expenses (mkTrip 100 [frozenMember] [frozenExpense]) = Some [frozenExpense]"
    by (simp_all add: mkTrip_def)
  have flags: "customBalance frozenMember" "customExpected frozenMember"
    "customPersonal frozenMember"
    by (simp_all add: frozenMember_def)
  have vals: "balance frozenMember = JNum (Fin 999)"
    "expectedContribution frozenMember = JNum (Fin 7)" "personal frozenMember = JNum (Fin 8)"
    by (simp_all add: frozenMember_def mkMember_def)
  from override_freeze [OF h1 h2, of exRt] obtain data' ms' where
    run: "recalculateState exRt (mkTrip 100 [frozenMember] [frozenExpense]) = Inr data'"
      "members data' = Some ms'"
    and fr: "\<forall>i < length [frozenMember].
       (customBalance ([frozenMember] ! i) \<longrightarrow> balance (ms' ! i) = balance ([frozenMember] ! i)) \<and>
       (customExpected ([frozenMember] ! i) \<longrightarrow>
          expectedContribution (ms' ! i) = expectedContribution ([frozenMember] ! i)) \<and>
       (customPersonal ([frozenMember] ! i) \<longrightarrow> personal (ms' ! i) = personal ([frozenMember] ! i))"
    by blast
  from fr have "balance (ms' ! 0) = balance frozenMember \<and>
     expectedContribution (ms' ! 0) = expectedContribution frozenMember \<and>
     personal (ms' ! 0) = personal frozenMember"
    using flags by simp
  with vals run h1 h2 flags show ?thesis by auto
qed

section \<open>The last pass\<close>

lemma finalize_fields:
  "id_m (finalize rt x) = id_m x" "expectedContribution (finalize rt x) = expectedContribution x"
  "actualContribution (finalize rt x) = actualContribution x" "personal (finalize rt x) = personal x"
  "reimbursed (finalize rt x) = reimbursed x" "expenseShare (finalize rt x) = expenseShare x"
  "customBalance (finalize rt x) = customBalance x"
  by (simp_all add: finalize_def Let_def)

section \<open>Expected shares\<close>

lemma findUpdate_length: "length (findUpdate p f xs) = length xs"
  by (induction xs) auto

lemma alloc_map_inv:
  assumes "\<And>m v. g (m\<lparr>personal := v\<rparr>) = g m" and "\<And>m v. g (m\<lparr>expenseShare := v\<rparr>) = g m"
  shows "map g (allocExpense rt e ms) = map g ms"
proof -
  have c: "map g (creditPayer rt a e xs) = map g xs" for a xs
    unfolding creditPayer_def by (simp add: findUpdate_map_inv assms)
  have ch: "map g (chargeMember rt s i xs) = map g xs" for s i xs
    unfolding chargeMember_def by (simp add: findUpdate_map_inv assms)
  have f: "map g (fold (chargeMember rt s) ids xs) = map g xs" for s ids xs
    by (induction ids arbitrary: xs) (simp_all add: ch)
  show ?thesis
    by (simp add: allocExpense_def Let_def f c)
qed

lemma alloc_fold_map_inv:
  assumes "\<And>m v. g (m\<lparr>personal := v\<rparr>) = g m" and "\<And>m v. g (m\<lparr>expenseShare := v\<rparr>) = g m"
  shows "map g (fold (allocExpense rt) es ms) = map g ms"
  by (induction es arbitrary: ms) (simp_all add: alloc_map_inv [where g = g, OF assms])

lemma pipeline_length: "length (pipeline rt ex es ms) = length ms"
  using frozenPart_pipeline [of rt ex es ms] by (rule map_eq_imp_length_eq)

lemma initMembers_expected:
  assumes "\<forall>m \<in> set ms. \<not> customExpected m"
  shows "\<forall>m \<in> set (initMembers rt ex ms). expectedContribution m = JNum ex"
  using assms
  by (auto simp: initMembers_def initMember_def resetShare_def Let_def in_set_enumerate_eq)

lemma pipeline_expected:
  assumes "\<forall>m \<in> set ms. \<not> customExpected m"
  shows "\<forall>m \<in> set (pipeline rt ex es ms). expectedContribution m = JNum ex"
proof -
  have "map expectedContribution (pipeline rt ex es ms)
        = map expectedContribution (fold (allocExpense rt) es (initMembers rt ex ms))"
    by (simp add: pipeline_def finalize_fields)
  also have "\<dots> = map expectedContribution (initMembers rt ex ms)"
    by (rule alloc_fold_map_inv) simp_all
  finally have "set (map expectedContribution (pipeline rt ex es ms))
        = set (map expectedContribution (initMembers rt ex ms))" by simp
  with initMembers_expected [OF assms, of rt ex] show ?thesis
    by (metis (no_types, lifting) image_iff list.set_map)
qed

lemma roundHalfEven_error: "\<bar>of_int (roundHalfEven y) - y\<bar> \<le> 1 / 2"
proof -
  have "of_int \<lfloor>y\<rfloor> \<le> y" "y < of_int \<lfloor>y\<rfloor> + 1" by linarith+
  then show ?thesis
    by (auto simp: roundHalfEven_def Let_def)
qed

lemma pow2_powi: "pow2 k = 2 powi k"
  by (simp add: pow2_def power_int_def field_simps)

lemma pow2_pos: "0 < pow2 k"
  by (simp add: pow2_powi)

lemma pow2_mono: "a \<le> b \<Longrightarrow> pow2 a \<le> pow2 b"
  by (simp add: pow2_powi power_int_increasing)

lemma ilog2_nonneg: "0 \<le> ilog2 n"
  by (induction n rule: ilog2.induct) (subst ilog2.simps, simp)

lemma ilog2_bounds:
  "1 \<le> n \<Longrightarrow> 2 ^ nat (ilog2 n) \<le> n \<and> n < 2 * 2 ^ nat (ilog2 n)"
proof (induction n rule: ilog2.induct)
  case (1 n)
  show ?case
  proof (cases "n < 2")
    case True
    with 1(2) have "n = 1" by simp
    then show ?thesis by (subst (1 2) ilog2.simps) simp
  next
    case False
    then have h: "1 \<le> n div 2" by simp
    from 1(1) [OF False h] have lo: "2 ^ nat (ilog2 (n div 2)) \<le> n div 2"
      and hi: "n div 2 < 2 * 2 ^ nat (ilog2 (n div 2))" by simp_all
    have eq: "ilog2 n = 1 + ilog2 (n div 2)" using False by (subst ilog2.simps) simp
    have nn: "nat (1 + ilog2 (n div 2)) = Suc (nat (ilog2 (n div 2)))"
      using ilog2_nonneg [of "n div 2"] by simp
    from lo hi show ?thesis unfolding eq nn by simp linarith
  qed
qed

lemma exponentOf_le:
  assumes "x \<noteq> 0"
  shows "pow2 (exponentOf x) \<le> \<bar>x\<bar>"
proof -
  obtain p q where pq: "quotient_of \<bar>x\<bar> = (p, q)" by (cases "quotient_of \<bar>x\<bar>")
  have q0: "0 < q" by (rule quotient_of_denom_pos [OF pq])
  have xv: "\<bar>x\<bar> = of_int p / of_int q" by (rule quotient_of_div [OF pq])
  have "0 < \<bar>x\<bar>" using assms by simp
  with xv q0 have p0: "0 < p" by (simp add: zero_less_divide_iff)
  define a where "a = nat (ilog2 p)"
  define b where "b = nat (ilog2 q)"
  have ia: "ilog2 p = int a" and ib: "ilog2 q = int b"
    using ilog2_nonneg by (simp_all add: a_def b_def)
  from ilog2_bounds [of p] p0 have lo: "2 ^ a \<le> p" by (simp add: a_def)
  from ilog2_bounds [of q] q0 have hi: "q < 2 * 2 ^ b" by (simp add: b_def)
  have lo': "(2::rat) ^ a \<le> of_int p"
    using lo by (metis of_int_le_iff of_int_numeral of_int_power)
  have hi': "of_int q \<le> (2::rat) ^ Suc b"
  proof -
    have "of_int q \<le> (of_int (2 * 2 ^ b) :: rat)" using hi by (simp only: of_int_le_iff)
    then show ?thesis by simp
  qed
  have "int a - int b - 1 = int a - int (Suc b)" by simp
  then have "pow2 (int a - int b - 1) = 2 powi (int a - int (Suc b))"
    by (simp only: pow2_powi)
  also have "\<dots> = 2 powi int a / 2 powi int (Suc b)"
    by (rule power_int_diff) simp
  also have "\<dots> = 2 ^ a / 2 ^ Suc b"
    by (simp only: power_int_of_nat)
  also have "\<dots> \<le> of_int p / of_int q"
    using lo' hi' q0 p0 by (intro frac_le) simp_all
  finally have low: "pow2 (int a - int b - 1) \<le> \<bar>x\<bar>" by (simp add: xv)
  show ?thesis
    using low by (simp add: exponentOf_def pq Let_def ia ib)
qed

lemma exponentOf_less:
  assumes "x \<noteq> 0" and "\<bar>x\<bar> < pow2 K"
  shows "exponentOf x < K"
proof (rule ccontr)
  assume "\<not> exponentOf x < K"
  then have "pow2 K \<le> pow2 (exponentOf x)" by (intro pow2_mono) simp
  with exponentOf_le [OF assms(1)] assms(2) show False by simp
qed

lemma nearestDouble_small:
  assumes "\<bar>x\<bar> < 2 ^ 46"
  shows "\<exists>y. nearestDouble x = Some y \<and> \<bar>y - x\<bar> \<le> 1 / 256"
proof (cases "x = 0")
  case True
  then show ?thesis by (simp add: nearestDouble_def)
next
  case False
  have "\<bar>x\<bar> < pow2 46" using assms by (simp add: pow2_def)
  from exponentOf_less [OF False this] have e46: "exponentOf x < 46" .
  define e where "e = max (exponentOf x) (- 1022)"
  define quantum where "quantum = pow2 (e - 52)"
  define n where "n = roundHalfEven (\<bar>x\<bar> / quantum)"
  have e45: "e \<le> 45" using e46 by (simp add: e_def)
  have qpos: "0 < quantum" by (simp add: quantum_def pow2_pos)
  have "quantum \<le> pow2 (- 7)" unfolding quantum_def using e45 by (intro pow2_mono) simp
  then have qle: "quantum \<le> 1 / 128" by (simp add: pow2_def)
  have nd: "nearestDouble x = Some (sgn x * (of_int n * quantum))"
    using False e46 e45 by (simp add: nearestDouble_def Let_def e_def [symmetric]
      quantum_def [symmetric] n_def [symmetric])
  have "\<bar>of_int n - \<bar>x\<bar> / quantum\<bar> \<le> 1 / 2" unfolding n_def by (rule roundHalfEven_error)
  then have "\<bar>of_int n - \<bar>x\<bar> / quantum\<bar> * quantum \<le> 1 / 2 * quantum"
    using qpos by (intro mult_right_mono) simp_all
  moreover have "\<bar>of_int n - \<bar>x\<bar> / quantum\<bar> * quantum = \<bar>of_int n * quantum - \<bar>x\<bar>\<bar>"
  proof -
    have "\<bar>of_int n - \<bar>x\<bar> / quantum\<bar> * quantum = \<bar>(of_int n - \<bar>x\<bar> / quantum) * quantum\<bar>"
      using qpos by (simp add: abs_mult)
    also have "(of_int n - \<bar>x\<bar> / quantum) * quantum = of_int n * quantum - \<bar>x\<bar>"
      using qpos by (simp add: field_simps)
    finally show ?thesis .
  qed
  ultimately have ab: "\<bar>of_int n * quantum - \<bar>x\<bar>\<bar> \<le> 1 / 256" using qle by simp
  have "\<bar>sgn x * (of_int n * quantum) - x\<bar> = \<bar>of_int n * quantum - \<bar>x\<bar>\<bar>"
  proof (cases "0 < x")
    case True
    then show ?thesis by simp
  next
    case f: False
    with False have "x < 0" by simp
    then have "sgn x * (of_int n * quantum) - x = - (of_int n * quantum - \<bar>x\<bar>)"
      by simp
    then show ?thesis by (simp only: abs_minus_cancel)
  qed
  with ab nd show ?thesis by simp
qed

lemma foldl_addDouble_replicate:
  assumes "\<bar>s\<bar> + of_nat k * (\<bar>q\<bar> + 1 / 256) < 2 ^ 46"
  shows "\<exists>t. foldl addDouble (Some s) (replicate k q) = Some t \<and>
             \<bar>t - (s + of_nat k * q)\<bar> \<le> of_nat k / 256"
  using assms
proof (induction k arbitrary: s)
  case 0
  then show ?case by simp
next
  case (Suc k)
  have kq: "0 \<le> of_nat k * (\<bar>q\<bar> + 1 / 256)" by simp
  have step: "\<bar>s\<bar> + (of_nat k * (\<bar>q\<bar> + 1 / 256) + (\<bar>q\<bar> + 1 / 256)) < 2 ^ 46"
    using Suc.prems by (simp add: algebra_simps add_divide_distrib)
  have "\<bar>s + q\<bar> \<le> \<bar>s\<bar> + \<bar>q\<bar>" by simp
  with step kq have "\<bar>s + q\<bar> < 2 ^ 46" by linarith
  from nearestDouble_small [OF this] obtain s1 where
    s1: "nearestDouble (s + q) = Some s1" and e1: "\<bar>s1 - (s + q)\<bar> \<le> 1 / 256" by blast
  have "\<bar>s1\<bar> \<le> \<bar>s\<bar> + \<bar>q\<bar> + 1 / 256" using e1 by linarith
  with step have "\<bar>s1\<bar> + of_nat k * (\<bar>q\<bar> + 1 / 256) < 2 ^ 46" by linarith
  from Suc.IH [OF this] obtain t where
    t: "foldl addDouble (Some s1) (replicate k q) = Some t"
    and et: "\<bar>t - (s1 + of_nat k * q)\<bar> \<le> of_nat k / 256" by blast
  have "foldl addDouble (Some s) (replicate (Suc k) q) = Some t"
    by (simp add: addDouble_def s1 t)
  moreover have "\<bar>t - (s + of_nat (Suc k) * q)\<bar> \<le> of_nat (Suc k) / 256"
  proof -
    have "t - (s + of_nat (Suc k) * q) = (t - (s1 + of_nat k * q)) + (s1 - (s + q))"
      by (simp add: algebra_simps)
    then have "\<bar>t - (s + of_nat (Suc k) * q)\<bar>
               \<le> \<bar>t - (s1 + of_nat k * q)\<bar> + \<bar>s1 - (s + q)\<bar>"
      by (simp only: abs_triangle_ineq)
    also have "\<dots> \<le> of_nat k / 256 + 1 / 256" using et e1 by (rule add_mono)
    also have "\<dots> = of_nat (Suc k) / 256" by (simp add: add_divide_distrib)
    finally show ?thesis .
  qed
  ultimately show ?case by blast
qed

lemma expected_sum_bounds:
  fixes b :: rat
  assumes "\<bar>b\<bar> \<le> 2 ^ 45" and "0 < n" and "n < 2 ^ 32"
  shows "\<exists>q t. expectedDouble b n = Some q \<and> sumDoubles (replicate n q) = Some t \<and>
           \<bar>of_nat n * q - b\<bar> \<le> of_nat n / 100 \<and> \<bar>t - b\<bar> \<le> of_nat n / 100"
proof -
  define N :: rat where "N = of_nat n"
  have N1: "1 \<le> N" using assms(2) by (simp add: N_def Suc_leI)
  have "n \<le> 2 ^ 32" using assms(3) by simp
  then have "(of_nat n :: rat) \<le> of_nat (2 ^ 32)" by (simp only: of_nat_le_iff)
  then have N32: "N \<le> 2 ^ 32" by (simp add: N_def)
  have "\<bar>b / N\<bar> = \<bar>b\<bar> / N" using N1 by simp
  also have "\<dots> \<le> \<bar>b\<bar> / 1" using N1 by (intro divide_left_mono) simp_all
  finally have xb: "\<bar>b / N\<bar> \<le> 2 ^ 45" using assms(1) by simp
  then have "\<bar>b / N\<bar> < 2 ^ 46" by simp
  from nearestDouble_small [OF this] obtain q where
    q: "nearestDouble (b / N) = Some q" and eq: "\<bar>q - b / N\<bar> \<le> 1 / 256" by blast
  have "N * (q - b / N) = N * q - b" using N1 by (simp add: field_simps)
  then have "\<bar>N * q - b\<bar> = \<bar>N * (q - b / N)\<bar>" by simp
  also have "\<dots> = N * \<bar>q - b / N\<bar>" using N1 by (simp add: abs_mult)
  also have "\<dots> \<le> N * (1 / 256)" using eq N1 by (intro mult_left_mono) simp_all
  finally have e1: "\<bar>N * q - b\<bar> \<le> N / 256" by simp
  have "N * \<bar>q\<bar> = \<bar>N * q\<bar>" using N1 by (simp add: abs_mult)
  also have "\<dots> \<le> \<bar>b\<bar> + N / 256" using e1 by linarith
  finally have "N * \<bar>q\<bar> \<le> 2 ^ 45 + N / 256" using assms(1) by simp
  then have "\<bar>0\<bar> + N * (\<bar>q\<bar> + 1 / 256) < 2 ^ 46" using N32 by (simp add: algebra_simps)
  from foldl_addDouble_replicate [OF this [unfolded N_def]] obtain t where
    t: "foldl addDouble (Some 0) (replicate n q) = Some t"
    and et: "\<bar>t - (0 + N * q)\<bar> \<le> N / 256" by (auto simp: N_def)
  have "\<bar>t - b\<bar> \<le> N / 128"
  proof -
    have "t - b = (t - (0 + N * q)) + (N * q - b)" by simp
    then have "\<bar>t - b\<bar> \<le> \<bar>t - (0 + N * q)\<bar> + \<bar>N * q - b\<bar>"
      by (simp only: abs_triangle_ineq)
    also have "\<dots> \<le> N / 256 + N / 256" using et e1 by (rule add_mono)
    finally show ?thesis by simp
  qed
  then have e2: "\<bar>t - b\<bar> \<le> N / 100" using N1 by simp
  from e1 have e1': "\<bar>N * q - b\<bar> \<le> N / 100" using N1 by simp
  from q t e1' e2 show ?thesis
    by (auto simp: expectedDouble_def sumDoubles_def N_def)
qed

lemma map_const_replicate:
  "\<forall>x \<in> set xs. f x = c \<Longrightarrow> map f xs = replicate (length xs) c"
  by (induction xs) simp_all

text \<open>
  Claim C5, as amended. On a document with its members and expenses arrays in which no
  member has \<open>customExpected\<close> set, \<^verbatim>\<open>recalculateState\<close> returns a document with the
  same number \<open>n\<close> of members and, when there is at least one member, every member's
  \<open>expectedContribution\<close> is the quotient of the budget by \<open>n\<close> as line 151 computes it.
  When the budget is a finite number \<open>b\<close> of absolute value at most \<open>2 ^ 45\<close> (an array has
  fewer than \<open>2 ^ 32\<close> entries), that quotient is in binary64 one number \<open>q\<close> for all
  members, and both the exact sum \<open>n * q\<close> of the stored values and the sum \<open>t\<close> that
  line 230 computes by adding them from left to right in binary64 are within 0.01 per
  member of \<open>b\<close>. With zero members the expected share is 0.
\<close>

theorem expected_share_sum:
  assumes "members data = Some ms" and "expenses data = Some es"
    and "\<forall>m \<in> set ms. \<not> customExpected m"
  shows "\<exists>data' ms'. recalculateState rt data = Inr data' \<and> members data' = Some ms' \<and>
           length ms' = length ms \<and>
           (ms \<noteq> [] \<longrightarrow>
              (\<forall>m' \<in> set ms'. expectedContribution m' =
                 JNum (num_div (toNumber rt (budget data)) (Fin (of_nat (length ms))))) \<and>
              (\<forall>b. toNumber rt (budget data) = Fin b \<and> \<bar>b\<bar> \<le> 2 ^ 45 \<and> length ms < 2 ^ 32 \<longrightarrow>
                 (\<exists>q t. expectedDouble b (length ms) = Some q \<and>
                    map (nearestDouble \<circ> finOf \<circ> expectedContribution) ms'
                      = replicate (length ms) (Some q) \<and>
                    sumDoubles (replicate (length ms) q) = Some t \<and>
                    \<bar>of_nat (length ms) * q - b\<bar> \<le> of_nat (length ms) / 100 \<and>
                    \<bar>t - b\<bar> \<le> of_nat (length ms) / 100))) \<and>
           expectedShare rt (budget data) 0 = Fin 0"
proof -
  define n where "n = length ms"
  define ex where "ex = expectedShare rt (budget data) n"
  define ms' where "ms' = pipeline rt ex es ms"
  have run: "recalculateState rt data = Inr (data\<lparr>members := Some ms'\<rparr>)"
    unfolding ms'_def ex_def n_def by (rule recalculateState_Some [OF assms(1,2)])
  have mem: "members (data\<lparr>members := Some ms'\<rparr>) = Some ms'" by simp
  have len: "length ms' = n" unfolding ms'_def n_def by (rule pipeline_length)
  have all: "\<forall>m' \<in> set ms'. expectedContribution m' = JNum ex"
    unfolding ms'_def by (rule pipeline_expected [OF assms(3)])
  have zero: "expectedShare rt (budget data) 0 = Fin 0" by (simp add: expectedShare_def)
  have main: "(\<forall>m' \<in> set ms'. expectedContribution m' =
                 JNum (num_div (toNumber rt (budget data)) (Fin (of_nat n)))) \<and>
              (\<forall>b. toNumber rt (budget data) = Fin b \<and> \<bar>b\<bar> \<le> 2 ^ 45 \<and> n < 2 ^ 32 \<longrightarrow>
                 (\<exists>q t. expectedDouble b n = Some q \<and>
                    map (nearestDouble \<circ> finOf \<circ> expectedContribution) ms'
                      = replicate n (Some q) \<and>
                    sumDoubles (replicate n q) = Some t \<and>
                    \<bar>of_nat n * q - b\<bar> \<le> of_nat n / 100 \<and>
                    \<bar>t - b\<bar> \<le> of_nat n / 100))" if ne: "ms \<noteq> []"
  proof -
    have n0: "0 < n" using ne by (simp add: n_def)
    have exv: "ex = num_div (toNumber rt (budget data)) (Fin (of_nat n))"
      using n0 by (simp add: ex_def expectedShare_def)
    have "\<exists>q t. expectedDouble b n = Some q \<and>
             map (nearestDouble \<circ> finOf \<circ> expectedContribution) ms' = replicate n (Some q) \<and>
             sumDoubles (replicate n q) = Some t \<and>
             \<bar>of_nat n * q - b\<bar> \<le> of_nat n / 100 \<and> \<bar>t - b\<bar> \<le> of_nat n / 100"
      if b: "toNumber rt (budget data) = Fin b" and small: "\<bar>b\<bar> \<le> 2 ^ 45" "n < 2 ^ 32" for b
    proof -
      from expected_sum_bounds [OF small(1) n0 small(2)] obtain q t where
        q: "expectedDouble b n = Some q" and t: "sumDoubles (replicate n q) = Some t"
        and e1: "\<bar>of_nat n * q - b\<bar> \<le> of_nat n / 100" and e2: "\<bar>t - b\<bar> \<le> of_nat n / 100"
        by blast
      have nr: "(of_nat n :: rat) \<noteq> 0" using n0 by simp
      have "ex = Fin (b / of_nat n)" using nr by (simp add: exv b)
      with all q have "\<forall>m' \<in> set ms'. (nearestDouble \<circ> finOf \<circ> expectedContribution) m' = Some q"
        by (simp add: finOf_def expectedDouble_def)
      then have "map (nearestDouble \<circ> finOf \<circ> expectedContribution) ms'
                 = replicate (length ms') (Some q)"
        by (rule map_const_replicate)
      with len q t e1 e2 show ?thesis by auto
    qed
    with all exv show ?thesis by simp
  qed
  from run mem len main zero show ?thesis unfolding n_def by blast
qed

theorem expected_share_sum_witness:
  "members scenarioA = Some scenarioAMembers \<and> expenses scenarioA = Some [] \<and>
   list_all (\<lambda>m. \<not> customExpected m) scenarioAMembers \<and> scenarioAMembers \<noteq> [] \<and>
   toNumber exRt (budget scenarioA) = Fin 30000 \<and> \<bar>30000 :: rat\<bar> \<le> 2 ^ 45 \<and>
   length scenarioAMembers < 2 ^ 32 \<and>
   length (resultMembers (recalculateState exRt scenarioA)) = 6 \<and>
   resultMembers (recalculateState exRt scenarioA) \<noteq> [] \<and>
   (\<exists>q t. expectedDouble 30000 6 = Some q \<and>
      map (nearestDouble \<circ> finOf \<circ> expectedContribution)
        (resultMembers (recalculateState exRt scenarioA)) = replicate 6 (Some q) \<and>
      sumDoubles (replicate 6 q) = Some t \<and>
      \<bar>6 * q - 30000\<bar> \<le> 6 / 100 \<and> \<bar>t - 30000\<bar> \<le> 6 / 100)"
proof -
  have h1: "members scenarioA = Some scenarioAMembers"
    and h2: "expenses scenarioA = Some []"
    and hb: "toNumber exRt (budget scenarioA) = Fin 30000"
    by (simp_all add: scenarioA_def mkTrip_def)
  have h3l: "list_all (\<lambda>m. \<not> customExpected m) scenarioAMembers"
    by (simp add: scenarioAMembers_def mkMember_def)
  then have h3: "\<forall>m \<in> set scenarioAMembers. \<not> customExpected m"
    by (simp add: list_all_iff)
  have ne: "scenarioAMembers \<noteq> []" and l6: "length scenarioAMembers = 6"
    by (simp_all add: scenarioAMembers_def)
  have hs: "\<bar>30000 :: rat\<bar> \<le> 2 ^ 45" by simp
  have hl: "length scenarioAMembers < 2 ^ 32" by (simp add: l6)
  from expected_share_sum [OF h1 h2 h3, of exRt] obtain data' ms' where
    run: "recalculateState exRt scenarioA = Inr data'" and mem: "members data' = Some ms'"
    and len: "length ms' = length scenarioAMembers"
    and sum: "scenarioAMembers \<noteq> [] \<longrightarrow>
       (\<forall>m' \<in> set ms'. expectedContribution m' =
          JNum (num_div (toNumber exRt (budget scenarioA))
                 (Fin (of_nat (length scenarioAMembers))))) \<and>
       (\<forall>b. toNumber exRt (budget scenarioA) = Fin b \<and> \<bar>b\<bar> \<le> 2 ^ 45 \<and>
            length scenarioAMembers < 2 ^ 32 \<longrightarrow>
          (\<exists>q t. expectedDouble b (length scenarioAMembers) = Some q \<and>
             map (nearestDouble \<circ> finOf \<circ> expectedContribution) ms'
               = replicate (length scenarioAMembers) (Some q) \<and>
             sumDoubles (replicate (length scenarioAMembers) q) = Some t \<and>
             \<bar>of_nat (length scenarioAMembers) * q - b\<bar> \<le> of_nat (length scenarioAMembers) / 100 \<and>
             \<bar>t - b\<bar> \<le> of_nat (length scenarioAMembers) / 100))"
    by blast
  have rm: "resultMembers (recalculateState exRt scenarioA) = ms'"
    by (simp add: resultMembers_def run mem)
  have ne': "ms' \<noteq> []" using len l6 by auto
  from sum ne hb hs hl have
    "\<exists>q t. expectedDouble 30000 (length scenarioAMembers) = Some q \<and>
       map (nearestDouble \<circ> finOf \<circ> expectedContribution) ms'
         = replicate (length scenarioAMembers) (Some q) \<and>
       sumDoubles (replicate (length scenarioAMembers) q) = Some t \<and>
       \<bar>of_nat (length scenarioAMembers) * q - 30000\<bar> \<le> of_nat (length scenarioAMembers) / 100 \<and>
       \<bar>t - 30000\<bar> \<le> of_nat (length scenarioAMembers) / 100"
    by blast
  then have "\<exists>q t. expectedDouble 30000 6 = Some q \<and>
      map (nearestDouble \<circ> finOf \<circ> expectedContribution) ms' = replicate 6 (Some q) \<and>
      sumDoubles (replicate 6 q) = Some t \<and>
      \<bar>6 * q - 30000\<bar> \<le> 6 / 100 \<and> \<bar>t - 30000\<bar> \<le> 6 / 100"
    by (simp only: l6 of_nat_numeral)
  with rm len l6 h1 h2 h3l ne ne' hb hs hl show ?thesis by (simp only: simp_thms)
qed

text \<open>
  The claim as stated fails on a large budget. With a budget of \<open>2 * 10 ^ 15\<close> and six
  members every share is the quotient of line 151, in binary64 the number
  \<open>5333333333333333 / 16\<close>. Six times that number misses the budget by \<open>1 / 8\<close>, and
  the sum line 230 computes misses it by \<open>1 / 4\<close>, where the tolerance of 0.01 per
  member is 0.06.
\<close>

theorem expected_sum_tolerance_counterexample:
  "map expectedContribution (resultMembers (recalculateState exRt bigBudgetTrip))
     = replicate 6 (JNum (num_div (Fin 2000000000000000) (Fin 6))) \<and>
   expectedDouble 2000000000000000 6 = Some (5333333333333333 / 16) \<and>
   6 * (5333333333333333 / 16) = (2000000000000000 - 1 / 8 :: rat) \<and>
   sumDoubles (replicate 6 (5333333333333333 / 16)) = Some (2000000000000000 - 1 / 4) \<and>
   6 * (1 / 100) < (1 / 8 :: rat)"
  by code_simp

section \<open>Totality and coercion\<close>

lemma recalculateState_pipeline:
  "expenses data = Some es \<Longrightarrow>
   recalculateState rt data =
     Inr (data\<lparr>members := Some (pipeline rt
        (expectedShare rt (budget data) (length (inputMembers data))) es (inputMembers data))\<rparr>)"
  by (simp add: recalculateState_def pipeline_def inputMembers_def Let_def)

lemma initMembers_nth:
  "i < length ms \<Longrightarrow> initMembers rt ex ms ! i = resetShare (initMember rt ex i (ms ! i))"
  by (simp add: initMembers_def nth_enumerate_eq)

lemma initMembers_length: "length (initMembers rt ex ms) = length ms"
  by (simp add: initMembers_def)

lemma pipeline_nth_inv:
  assumes "\<And>m v. g (m\<lparr>personal := v\<rparr>) = g m" and "\<And>m v. g (m\<lparr>expenseShare := v\<rparr>) = g m"
    and "\<And>m. g (finalize rt m) = g m" and "i < length ms"
  shows "g (pipeline rt ex es ms ! i) = g (initMember rt ex i (ms ! i))"
proof -
  let ?a = "fold (allocExpense rt) es (initMembers rt ex ms)"
  have eq: "map g ?a = map g (initMembers rt ex ms)"
    by (rule alloc_fold_map_inv [where g = g, OF assms(1,2)])
  then have la: "length ?a = length ms"
    using map_eq_imp_length_eq initMembers_length by metis
  have "g (pipeline rt ex es ms ! i) = g (?a ! i)"
    using la assms(4) by (simp add: pipeline_def assms(3))
  also have "\<dots> = map g ?a ! i" using la assms(4) by simp
  also have "\<dots> = g (initMembers rt ex ms ! i)"
    using assms(4) by (simp add: eq initMembers_length)
  also have "\<dots> = g (initMember rt ex i (ms ! i))"
    using assms(4) by (simp add: initMembers_nth resetShare_def Let_def assms(1,2))
  finally show ?thesis .
qed

lemma pipeline_reimbursed:
  "i < length ms \<Longrightarrow> reimbursed (pipeline rt ex es ms ! i) = coerceField (reimbursed (ms ! i))"
  by (subst pipeline_nth_inv [where g = reimbursed])
     (simp_all add: finalize_fields initMember_def Let_def coerceField_def)

lemma pipeline_actual:
  "i < length ms \<Longrightarrow>
   actualContribution (pipeline rt ex es ms ! i) = coerceField (actualContribution (ms ! i))"
  by (subst pipeline_nth_inv [where g = actualContribution])
     (simp_all add: finalize_fields initMember_def Let_def coerceField_def)

lemma pipeline_expected_nth:
  "i < length ms \<Longrightarrow> \<not> customExpected (ms ! i) \<Longrightarrow>
   expectedContribution (pipeline rt ex es ms ! i) = JNum ex"
  by (subst pipeline_nth_inv [where g = expectedContribution])
     (simp_all add: finalize_fields initMember_def Let_def)

lemma creditPayer_amount: "creditPayer rt a (e\<lparr>amount := v\<rparr>) ms = creditPayer rt a e ms"
  by (simp add: creditPayer_def)

lemma splitMembers_amount: "splitMembers (e\<lparr>amount := v\<rparr>) ms = splitMembers e ms"
  by (simp add: splitMembers_def split: option.splits list.splits)

lemma allocExpense_coerceAmount: "allocExpense rt (coerceAmount rt e) = allocExpense rt e"
proof (cases "parseFloat rt (amount e) = NaN")
  case True
  then have "allocExpense rt (e\<lparr>amount := JNum (Fin 0)\<rparr>) ms = allocExpense rt e ms" for ms
    unfolding allocExpense_def creditPayer_amount splitMembers_amount by simp
  with True show ?thesis by (simp add: coerceAmount_def fun_eq_iff)
next
  case False
  then show ?thesis by (simp add: coerceAmount_def)
qed

lemma fold_alloc_coerceAmount:
  "fold (allocExpense rt) (map (coerceAmount rt) es) ms = fold (allocExpense rt) es ms"
  by (simp add: fold_map comp_def allocExpense_coerceAmount)

text \<open>A document without its \<open>expenses\<close> array makes the run throw.\<close>

lemma recalculate_missing_expenses:
  "expenses data = None \<Longrightarrow> recalculateState rt data = Inl TypeError"
  by (simp add: recalculateState_def Let_def)

text \<open>
  Claim C9, as amended. Take a document whose \<open>expenses\<close> property is an array of
  expense objects and whose \<open>members\<close> property is absent (it then counts as the empty
  array) or an array of member objects, the budget and the fields read being primitive
  values or absent.
  On such a document \<^verbatim>\<open>recalculateState\<close> returns a document, with one member per input
  member. A \<open>reimbursed\<close> or \<open>actualContribution\<close> that is not of type number is replaced
  by the number 0 and one that is a number is kept. An expense amount that does not parse
  to a number counts as 0: the run gives the same members as on the document in which
  such amounts are replaced by 0. A missing budget is not coerced: every member without
  \<open>customExpected\<close> then gets \<^verbatim>\<open>NaN\<close> as its \<open>expectedContribution\<close>.
\<close>

theorem recalculate_total:
  assumes "expenses data = Some es"
  shows "\<exists>data'. recalculateState rt data = Inr data' \<and>
           length (resultMembers (Inr data')) = length (inputMembers data) \<and>
           (\<forall>i < length (inputMembers data).
              reimbursed (resultMembers (Inr data') ! i)
                = coerceField (reimbursed (inputMembers data ! i)) \<and>
              actualContribution (resultMembers (Inr data') ! i)
                = coerceField (actualContribution (inputMembers data ! i)) \<and>
              (budget data = JUndefined \<and> \<not> customExpected (inputMembers data ! i) \<longrightarrow>
                 expectedContribution (resultMembers (Inr data') ! i) = JNum NaN)) \<and>
           resultMembers (recalculateState rt (data\<lparr>expenses := Some (map (coerceAmount rt) es)\<rparr>))
             = resultMembers (Inr data')"
proof -
  define ms where "ms = inputMembers data"
  define ex where "ex = expectedShare rt (budget data) (length ms)"
  define ms' where "ms' = pipeline rt ex es ms"
  have run: "recalculateState rt data = Inr (data\<lparr>members := Some ms'\<rparr>)"
    unfolding ms'_def ex_def ms_def by (rule recalculateState_pipeline [OF assms])
  have rm: "resultMembers (Inr (data\<lparr>members := Some ms'\<rparr>)) = ms'"
    by (simp add: resultMembers_def)
  have len: "length ms' = length ms" unfolding ms'_def by (rule pipeline_length)
  have nan: "ex = NaN" if "budget data = JUndefined" "i < length ms" for i
  proof -
    from that(2) have "0 < length ms" by (cases ms) simp_all
    with that(1) show ?thesis by (simp add: ex_def expectedShare_def)
  qed
  have fields: "\<forall>i < length ms.
      reimbursed (ms' ! i) = coerceField (reimbursed (ms ! i)) \<and>
      actualContribution (ms' ! i) = coerceField (actualContribution (ms ! i)) \<and>
      (budget data = JUndefined \<and> \<not> customExpected (ms ! i) \<longrightarrow>
         expectedContribution (ms' ! i) = JNum NaN)"
    unfolding ms'_def
    using nan by (auto simp: pipeline_reimbursed pipeline_actual pipeline_expected_nth)
  let ?d2 = "data\<lparr>expenses := Some (map (coerceAmount rt) es)\<rparr>"
  have e2: "expenses ?d2 = Some (map (coerceAmount rt) es)" by simp
  have "recalculateState rt ?d2 = Inr (?d2\<lparr>members := Some ms'\<rparr>)"
    unfolding recalculateState_pipeline [OF e2]
    by (simp add: ms'_def ex_def ms_def inputMembers_def pipeline_def fold_alloc_coerceAmount)
  then have co: "resultMembers (recalculateState rt ?d2) = ms'"
    by (simp add: resultMembers_def)
  from run rm len fields co show ?thesis
    unfolding ms_def by simp
qed


theorem recalculate_total_witness:
  "expenses malformedTrip = Some malformedExpenses \<and>
   length (inputMembers malformedTrip) = 1 \<and>
   budget malformedTrip = JUndefined \<and>
   \<not> customExpected (inputMembers malformedTrip ! 0) \<and>
   reimbursed (inputMembers malformedTrip ! 0) = JUndefined \<and>
   actualContribution (inputMembers malformedTrip ! 0) = JStr ''abc'' \<and>
   (\<exists>data'. recalculateState exRt malformedTrip = Inr data' \<and>
      reimbursed (resultMembers (Inr data') ! 0) = JNum (Fin 0) \<and>
      actualContribution (resultMembers (Inr data') ! 0) = JNum (Fin 0) \<and>
      expectedContribution (resultMembers (Inr data') ! 0) = JNum NaN)"
proof -
  have h: "expenses malformedTrip = Some malformedExpenses"
    by (simp add: malformedTrip_def mkTrip_def)
  have i: "length (inputMembers malformedTrip) = 1" "budget malformedTrip = JUndefined"
    "\<not> customExpected (inputMembers malformedTrip ! 0)"
    "reimbursed (inputMembers malformedTrip ! 0) = JUndefined"
    "actualContribution (inputMembers malformedTrip ! 0) = JStr ''abc''"
    by (simp_all add: malformedTrip_def mkTrip_def mkMember_def inputMembers_def)
  from recalculate_total [OF h, of exRt] obtain data' where
    run: "recalculateState exRt malformedTrip = Inr data'"
    and f: "\<forall>i < length (inputMembers malformedTrip).
              reimbursed (resultMembers (Inr data') ! i)
                = coerceField (reimbursed (inputMembers malformedTrip ! i)) \<and>
              actualContribution (resultMembers (Inr data') ! i)
                = coerceField (actualContribution (inputMembers malformedTrip ! i)) \<and>
              (budget malformedTrip = JUndefined \<and> \<not> customExpected (inputMembers malformedTrip ! i) \<longrightarrow>
                 expectedContribution (resultMembers (Inr data') ! i) = JNum NaN)"
    by blast
  from f i have "reimbursed (resultMembers (Inr data') ! 0) = JNum (Fin 0) \<and>
      actualContribution (resultMembers (Inr data') ! 0) = JNum (Fin 0) \<and>
      expectedContribution (resultMembers (Inr data') ! 0) = JNum NaN"
    by (simp add: coerceField_def)
  with run h i show ?thesis by blast
qed

text \<open>
  The claim as stated fails on a missing budget: the member's expected and remaining
  contributions come out as \<^verbatim>\<open>NaN\<close>, not as zero.
\<close>

theorem missing_budget_counterexample:
  "budget noBudgetTrip = JUndefined \<and>
   expectedContribution (resultMembers (recalculateState exRt noBudgetTrip) ! 0) = JNum NaN \<and>
   remainingContribution (resultMembers (recalculateState exRt noBudgetTrip) ! 0) = JNum NaN"
  by code_simp

section \<open>Idempotence\<close>

lemma findUpdate_map_comm:
  assumes "\<And>x. p' (h x) = p x" and "\<And>x. h (f x) = f' (h x)"
  shows "map h (findUpdate p f xs) = findUpdate p' f' (map h xs)"
  by (induction xs) (simp_all add: assms)

lemma erase_fields:
  "id_m (erase m) = id_m m" "customPersonal (erase m) = customPersonal m"
  "personal (erase m) = personal m" "expenseShare (erase m) = expenseShare m"
  by (simp_all add: erase_def)

lemma erase_creditPayer:
  "map erase (creditPayer rt a e ms) = creditPayer rt a e (map erase ms)"
  unfolding creditPayer_def
  by (simp add: findUpdate_map_comm [where h = erase and
        p' = "\<lambda>m. strictEq (id_m m) (paidBy e)"] erase_def)

lemma erase_chargeMember:
  "map erase (chargeMember rt s i ms) = chargeMember rt s i (map erase ms)"
  unfolding chargeMember_def
  by (simp add: findUpdate_map_comm [where h = erase and
        p' = "\<lambda>m. strictEq (id_m m) i"] erase_def)

lemma erase_charge_fold:
  "map erase (fold (chargeMember rt s) ids ms) = fold (chargeMember rt s) ids (map erase ms)"
  by (induction ids arbitrary: ms) (simp_all add: erase_chargeMember)

lemma splitMembers_cong:
  "map id_m xs = map id_m ys \<Longrightarrow> splitMembers e xs = splitMembers e ys"
  by (simp add: splitMembers_def split: option.splits list.splits)

lemma erase_allocExpense:
  "map erase (allocExpense rt e ms) = allocExpense rt e (map erase ms)"
proof -
  have ids: "map id_m (map erase xs) = map id_m xs" for xs
    by (simp add: erase_fields comp_def)
  have sp: "splitMembers e (creditPayer rt a e (map erase ms)) = splitMembers e (creditPayer rt a e ms)" for a
  proof (rule splitMembers_cong)
    have "map id_m (creditPayer rt a e (map erase ms)) = map id_m (map erase (creditPayer rt a e ms))"
      by (simp only: erase_creditPayer)
    also have "\<dots> = map id_m (creditPayer rt a e ms)" by (rule ids)
    finally show "map id_m (creditPayer rt a e (map erase ms)) = map id_m (creditPayer rt a e ms)" .
  qed
  show ?thesis
    by (simp add: allocExpense_def Let_def sp erase_charge_fold erase_creditPayer)
qed

lemma erase_alloc_fold:
  "map erase (fold (allocExpense rt) es ms) = fold (allocExpense rt) es (map erase ms)"
  by (induction es arbitrary: ms) (simp_all add: erase_allocExpense)

lemma finalize_erase: "finalize rt (erase m) = finalize rt m"
  by (simp add: finalize_def erase_def Let_def)

lemma erase_finalize: "erase (finalize rt m) = erase m"
  by (simp add: finalize_def erase_def Let_def)

lemma base_alloc: "map base (allocExpense rt e ms) = map base ms"
proof -
  have c: "map base (creditPayer rt a e xs) = map base xs" for a xs
    unfolding creditPayer_def by (simp add: findUpdate_map_inv base_def)
  have ch: "map base (chargeMember rt s i xs) = map base xs" for s i xs
    unfolding chargeMember_def by (simp add: findUpdate_map_inv base_def)
  have f: "map base (fold (chargeMember rt s) ids xs) = map base xs" for s ids xs
    by (induction ids arbitrary: xs) (simp_all add: ch)
  show ?thesis
    by (simp add: allocExpense_def Let_def f c)
qed

lemma base_alloc_fold: "map base (fold (allocExpense rt) es ms) = map base ms"
  by (induction es arbitrary: ms) (simp_all add: base_alloc)

lemma reinit_closed:
  "reinit rt ex i m =
     m\<lparr>id_m := (if truthy (id_m m) then id_m m else JStr (newId rt i)),
       expectedContribution := (if customExpected m then expectedContribution m else JNum ex),
       personal := (if customPersonal m then personal m else JNum (Fin 0)),
       reimbursed := coerceField (reimbursed m),
       actualContribution := coerceField (actualContribution m),
       expenseShare := JNum (Fin 0)\<rparr>"
  by (cases m) (simp add: reinit_def initMember_def resetShare_def Let_def coerceField_def)

lemma coerceField_idem: "coerceField (coerceField v) = coerceField v"
  by (simp add: coerceField_def)

lemma reinit_base: "reinit rt ex i (base m) = reinit rt ex i m"
  by (cases m) (simp add: reinit_closed base_def)

lemma erase_reinit: "erase (reinit rt ex i m) = reinit rt ex i (erase m)"
  by (cases m) (simp add: reinit_closed erase_def)

lemma reinit_idem:
  "truthy (id_m m) \<Longrightarrow> reinit rt ex i (reinit rt ex i m) = reinit rt ex i m"
  by (cases m) (simp add: reinit_closed coerceField_idem)

lemma initMembers_reinit:
  "i < length ms \<Longrightarrow> initMembers rt ex ms ! i = reinit rt ex i (ms ! i)"
  by (simp add: initMembers_nth reinit_def)

lemma map_eq_nth: "map f xs = map f ys \<Longrightarrow> i < length xs \<Longrightarrow> f (xs ! i) = f (ys ! i)"
  by (metis length_map nth_map)

lemma erase_init_pipeline:
  assumes "\<forall>m \<in> set ms. truthy (id_m m)"
  shows "map erase (initMembers rt ex (pipeline rt ex es ms)) = map erase (initMembers rt ex ms)"
proof (rule nth_equalityI)
  show "length (map erase (initMembers rt ex (pipeline rt ex es ms)))
        = length (map erase (initMembers rt ex ms))"
    by (simp add: initMembers_length pipeline_length)
next
  fix i assume "i < length (map erase (initMembers rt ex (pipeline rt ex es ms)))"
  then have i: "i < length ms" by (simp add: initMembers_length pipeline_length)
  let ?z = "initMembers rt ex ms"
  let ?y = "fold (allocExpense rt) es ?z"
  have "length ?y = length ?z"
    by (rule map_eq_imp_length_eq [OF base_alloc_fold])
  then have ly: "length ?y = length ms"
    by (simp add: initMembers_length)
  have by_: "base (?y ! i) = base (?z ! i)"
    using map_eq_nth [OF base_alloc_fold [of rt es ?z]] i ly by simp
  have p: "pipeline rt ex es ms ! i = finalize rt (?y ! i)"
    using i ly by (simp add: pipeline_def)
  have "erase (reinit rt ex i (pipeline rt ex es ms ! i)) = reinit rt ex i (erase (finalize rt (?y ! i)))"
    by (simp add: p erase_reinit)
  also have "\<dots> = erase (reinit rt ex i (?y ! i))"
    by (simp add: erase_finalize erase_reinit)
  also have "\<dots> = erase (reinit rt ex i (base (?y ! i)))"
    by (simp add: reinit_base)
  also have "\<dots> = erase (reinit rt ex i (?z ! i))"
    by (simp add: by_ reinit_base)
  also have "\<dots> = erase (reinit rt ex i (ms ! i))"
    using i assms by (simp add: initMembers_reinit reinit_idem)
  finally show "map erase (initMembers rt ex (pipeline rt ex es ms)) ! i
        = map erase (initMembers rt ex ms) ! i"
    using i by (simp add: initMembers_length pipeline_length initMembers_reinit)
qed

lemma pipeline_erase_init:
  "pipeline rt ex es ms = map (finalize rt) (fold (allocExpense rt) es (map erase (initMembers rt ex ms)))"
proof -
  have "map (finalize rt) (fold (allocExpense rt) es (map erase (initMembers rt ex ms)))
        = map (finalize rt) (map erase (fold (allocExpense rt) es (initMembers rt ex ms)))"
    by (simp only: erase_alloc_fold)
  also have "\<dots> = pipeline rt ex es ms"
    by (simp add: pipeline_def finalize_erase)
  finally show ?thesis by simp
qed

lemma pipeline_idem:
  assumes "\<forall>m \<in> set ms. truthy (id_m m)"
  shows "pipeline rt ex es (pipeline rt ex es ms) = pipeline rt ex es ms"
proof -
  have "pipeline rt ex es (pipeline rt ex es ms)
        = map (finalize rt) (fold (allocExpense rt) es
            (map erase (initMembers rt ex (pipeline rt ex es ms))))"
    by (rule pipeline_erase_init)
  also have "\<dots> = map (finalize rt) (fold (allocExpense rt) es (map erase (initMembers rt ex ms)))"
    by (simp only: erase_init_pipeline [OF assms])
  also have "\<dots> = pipeline rt ex es ms"
    by (rule pipeline_erase_init [symmetric])
  finally show ?thesis .
qed

text \<open>
  Claim C2. For every structurally valid document (members and expenses arrays present,
  every member carrying a truthy id) \<^verbatim>\<open>recalculateState\<close> returns a document, and
  running it again on that document returns the same document: no field of any member
  changes.
\<close>

theorem recalculate_idempotent:
  assumes "members data = Some ms" and "expenses data = Some es"
    and "\<forall>m \<in> set ms. truthy (id_m m)"
  shows "\<exists>data'. recalculateState rt data = Inr data' \<and> recalculateState rt data' = Inr data'"
proof -
  define ex where "ex = expectedShare rt (budget data) (length ms)"
  define data' where "data' = data\<lparr>members := Some (pipeline rt ex es ms)\<rparr>"
  have run: "recalculateState rt data = Inr data'"
    unfolding data'_def ex_def by (rule recalculateState_Some [OF assms(1,2)])
  have m': "members data' = Some (pipeline rt ex es ms)" and e': "expenses data' = Some es"
    and b': "budget data' = budget data"
    using assms(2) by (simp_all add: data'_def)
  have "recalculateState rt data'
        = Inr (data'\<lparr>members := Some (pipeline rt ex es (pipeline rt ex es ms))\<rparr>)"
    unfolding recalculateState_Some [OF m' e'] by (simp add: b' pipeline_length ex_def)
  also have "\<dots> = Inr data'"
    by (simp add: pipeline_idem [OF assms(3)] data'_def)
  finally show ?thesis using run by blast
qed


theorem recalculate_idempotent_witness:
  "members overReimbursedTrip
     = Some [(mkMember ''a'' 5000)\<lparr>reimbursed := JNum (Fin 2000)\<rparr>, mkMember ''b'' 5000] \<and>
   (\<exists>es. expenses overReimbursedTrip = Some es) \<and>
   list_all (\<lambda>m. truthy (id_m m))
     [(mkMember ''a'' 5000)\<lparr>reimbursed := JNum (Fin 2000)\<rparr>, mkMember ''b'' 5000] \<and>
   (\<exists>data'. recalculateState exRt overReimbursedTrip = Inr data' \<and>
      recalculateState exRt data' = Inr data')"
proof -
  let ?ms = "[(mkMember ''a'' 5000)\<lparr>reimbursed := JNum (Fin 2000)\<rparr>, mkMember ''b'' 5000]"
  let ?es = "[\<lparr>amount = JNum (Fin 1200), paidBy = JStr ''a'',
       splitBetween = Some [JStr ''a'', JStr ''b'']\<rparr>]"
  have h1: "members overReimbursedTrip = Some ?ms"
    and h2: "expenses overReimbursedTrip = Some ?es"
    by (simp_all add: overReimbursedTrip_def mkTrip_def)
  have h3l: "list_all (\<lambda>m. truthy (id_m m)) ?ms"
    by (simp add: mkMember_def)
  then have h3: "\<forall>m \<in> set ?ms. truthy (id_m m)"
    by (simp add: list_all_iff)
  from recalculate_idempotent [OF h1 h2 h3, of exRt] h1 h2 h3l show ?thesis
    by blast
qed

section \<open>Expense allocation\<close>

lemma chargeMember_charge:
  "chargeMember rt sh s ms = findUpdate (\<lambda>m. strictEq (id_m m) s) (charge rt sh) ms"
proof -
  have "charge rt sh = (\<lambda>member. member\<lparr>expenseShare := jsPlus rt (expenseShare member) (JNum sh)\<rparr>)"
    by (rule ext) (simp add: charge_def)
  then show ?thesis by (simp add: chargeMember_def)
qed

lemma findUpdate_distinct:
  assumes "distinct (map id_m xs)"
  shows "findUpdate (\<lambda>m. strictEq (id_m m) s) f xs
         = map (\<lambda>m. if strictEq (id_m m) s then f m else m) xs"
  using assms
proof (induction xs)
  case Nil
  then show ?case by simp
next
  case (Cons x xs)
  show ?case
  proof (cases "strictEq (id_m x) s")
    case True
    have "\<not> strictEq (id_m y) s" if "y \<in> set xs" for y
    proof
      assume "strictEq (id_m y) s"
      with True have "id_m y = id_m x" by (simp add: strictEq_def)
      with that have "id_m x \<in> id_m ` set xs" by (metis imageI)
      with Cons.prems show False by simp
    qed
    then have "map (\<lambda>m. if strictEq (id_m m) s then f m else m) xs = xs"
      by (simp add: map_idI)
    with True show ?thesis by simp
  next
    case False
    with Cons show ?thesis by simp
  qed
qed

lemma strictEq_truthy: "truthy a \<Longrightarrow> strictEq a b = (a = b)"
  by (auto simp: strictEq_def)

lemma charge_fold_distinct:
  assumes "distinct (map id_m xs)" and "\<forall>x \<in> set xs. truthy (id_m x)" and "distinct S"
  shows "fold (chargeMember rt sh) S xs
         = map (\<lambda>m. if id_m m \<in> set S then charge rt sh m else m) xs"
  using assms
proof (induction S arbitrary: xs)
  case Nil
  then show ?case by simp
next
  case (Cons s S)
  let ?xs1 = "map (\<lambda>m. if id_m m = s then charge rt sh m else m) xs"
  have step: "chargeMember rt sh s xs = ?xs1"
    unfolding chargeMember_charge findUpdate_distinct [OF Cons.prems(1)]
    using Cons.prems(2) by (simp add: strictEq_truthy)
  have ids: "map id_m ?xs1 = map id_m xs"
    by (simp add: charge_def comp_def)
  have d1: "distinct (map id_m ?xs1)" using Cons.prems(1) by (simp only: ids)
  have t1: "\<forall>x \<in> set ?xs1. truthy (id_m x)"
    using Cons.prems(2) by (auto simp: charge_def)
  have dS: "distinct S" and sS: "s \<notin> set S" using Cons.prems(3) by simp_all
  have "fold (chargeMember rt sh) (s # S) xs = fold (chargeMember rt sh) S ?xs1"
    by (simp add: step)
  also have "\<dots> = map (\<lambda>m. if id_m m \<in> set S then charge rt sh m else m) ?xs1"
    by (rule Cons.IH [OF d1 t1 dS])
  also have "\<dots> = map (\<lambda>m. if id_m m \<in> set (s # S) then charge rt sh m else m) xs"
    using sS by (auto simp: charge_def)
  finally show ?case .
qed

lemma creditPayer_ids: "map id_m (creditPayer rt a e xs) = map id_m xs"
  unfolding creditPayer_def by (simp add: findUpdate_map_inv)

lemma creditPayer_share: "map expenseShare (creditPayer rt a e xs) = map expenseShare xs"
  unfolding creditPayer_def by (simp add: findUpdate_map_inv)

lemma creditPayer_length: "length (creditPayer rt a e xs) = length xs"
  using creditPayer_ids [of rt a e xs] by (rule map_eq_imp_length_eq)

lemma set_truthy_ids:
  assumes "map id_m ys = map id_m xs" and "\<forall>x \<in> set xs. truthy (id_m x)"
  shows "\<forall>y \<in> set ys. truthy (id_m y)"
proof -
  have "id_m ` set ys = id_m ` set xs" using assms(1) by (metis list.set_map)
  with assms(2) show ?thesis by (metis (no_types, lifting) image_iff)
qed

text \<open>One expense on members with distinct truthy ids, as one map.\<close>

lemma allocExpense_distinct:
  assumes "distinct (map id_m xs)" and "\<forall>x \<in> set xs. truthy (id_m x)"
    and "distinct (splitMembers e xs)"
  shows "allocExpense rt e xs
         = map (\<lambda>m. if id_m m \<in> set (splitMembers e xs)
                     then charge rt (num_div (num_or_zero (parseFloat rt (amount e)))
                            (Fin (of_nat (length (splitMembers e xs))))) m
                     else m)
             (creditPayer rt (num_or_zero (parseFloat rt (amount e))) e xs)"
proof -
  let ?amt = "num_or_zero (parseFloat rt (amount e))"
  let ?ms1 = "creditPayer rt ?amt e xs"
  have sp: "splitMembers e ?ms1 = splitMembers e xs"
    by (rule splitMembers_cong) (rule creditPayer_ids)
  have d1: "distinct (map id_m ?ms1)" using assms(1) by (simp only: creditPayer_ids)
  have t1: "\<forall>x \<in> set ?ms1. truthy (id_m x)"
    by (rule set_truthy_ids [OF creditPayer_ids assms(2)])
  show ?thesis
  proof (cases "splitMembers e xs = []")
    case True
    then show ?thesis by (simp add: allocExpense_def Let_def sp map_idI)
  next
    case False
    then show ?thesis
      by (simp add: allocExpense_def Let_def sp charge_fold_distinct [OF d1 t1 assms(3)])
  qed
qed

lemma allocExpense_share_nth:
  assumes "distinct (map id_m xs)" and "\<forall>x \<in> set xs. truthy (id_m x)"
    and "distinct (splitMembers e xs)" and "i < length xs"
  shows "expenseShare (allocExpense rt e xs ! i)
         = (if id_m (xs ! i) \<in> set (splitMembers e xs)
            then jsPlus rt (expenseShare (xs ! i))
                   (JNum (num_div (num_or_zero (parseFloat rt (amount e)))
                            (Fin (of_nat (length (splitMembers e xs))))))
            else expenseShare (xs ! i))"
proof -
  let ?ms1 = "creditPayer rt (num_or_zero (parseFloat rt (amount e))) e xs"
  have i1: "i < length ?ms1" using assms(4) by (simp add: creditPayer_length)
  have id1: "id_m (?ms1 ! i) = id_m (xs ! i)"
    using map_eq_nth [OF creditPayer_ids i1] .
  have sh1: "expenseShare (?ms1 ! i) = expenseShare (xs ! i)"
    using map_eq_nth [OF creditPayer_share i1] .
  show ?thesis
    unfolding allocExpense_distinct [OF assms(1-3)]
    using i1 by (simp add: id1 sh1 charge_def)
qed


lemma num_or_zero_amount: "num_or_zero (parseFloat rt (amount e)) = Fin (expenseAmount rt e)"
  by (cases "parseFloat rt (amount e)") (simp_all add: expenseAmount_def)

lemma findUpdate_pred:
  assumes "\<forall>x \<in> set xs. P x" and "\<And>x. P x \<Longrightarrow> P (f x)"
  shows "\<forall>x \<in> set (findUpdate p f xs). P x"
  using assms(1) by (induction xs) (auto simp: assms(2))

lemma charge_finite:
  "isFinite (expenseShare m) \<Longrightarrow> isFinite (expenseShare (charge rt (Fin s) m))"
  by (cases "expenseShare m" rule: isFinite.cases) (simp_all add: charge_def jsPlus_def)

lemma chargeMember_finite:
  assumes "\<forall>x \<in> set xs. isFinite (expenseShare x)"
  shows "\<forall>x \<in> set (chargeMember rt (Fin s) i xs). isFinite (expenseShare x)"
  unfolding chargeMember_charge
  by (rule findUpdate_pred [OF assms]) (rule charge_finite)

lemma charge_fold_finite:
  assumes "\<forall>x \<in> set xs. isFinite (expenseShare x)"
  shows "\<forall>x \<in> set (fold (chargeMember rt (Fin s)) ids xs). isFinite (expenseShare x)"
  using assms
proof (induction ids arbitrary: xs)
  case Nil
  then show ?case by simp
next
  case (Cons i ids)
  from Cons.IH [OF chargeMember_finite [OF Cons.prems]] show ?case by simp
qed

lemma creditPayer_finite:
  assumes "\<forall>x \<in> set xs. isFinite (expenseShare x)"
  shows "\<forall>x \<in> set (creditPayer rt a e xs). isFinite (expenseShare x)"
proof -
  have "set (map expenseShare (creditPayer rt a e xs)) = set (map expenseShare xs)"
    by (simp only: creditPayer_share)
  with assms show ?thesis by (metis (no_types, lifting) image_iff list.set_map)
qed

lemma allocExpense_finite:
  assumes "\<forall>x \<in> set xs. isFinite (expenseShare x)"
  shows "\<forall>x \<in> set (allocExpense rt e xs). isFinite (expenseShare x)"
proof -
  let ?ms1 = "creditPayer rt (Fin (expenseAmount rt e)) e xs"
  have f1: "\<forall>x \<in> set ?ms1. isFinite (expenseShare x)"
    by (rule creditPayer_finite [OF assms])
  show ?thesis
  proof (cases "splitMembers e ?ms1 = []")
    case True
    with f1 show ?thesis by (simp add: allocExpense_def Let_def num_or_zero_amount)
  next
    case False
    then have "num_div (Fin (expenseAmount rt e)) (Fin (of_nat (length (splitMembers e ?ms1))))
               = Fin (expenseAmount rt e / of_nat (length (splitMembers e ?ms1)))"
      by simp
    with False charge_fold_finite [OF f1] show ?thesis
      by (simp add: allocExpense_def Let_def num_or_zero_amount)
  qed
qed

lemma alloc_fold_finite:
  assumes "\<forall>x \<in> set xs. isFinite (expenseShare x)"
  shows "\<forall>x \<in> set (fold (allocExpense rt) es xs). isFinite (expenseShare x)"
  using assms
proof (induction es arbitrary: xs)
  case Nil
  then show ?case by simp
next
  case (Cons e es)
  from Cons.IH [OF allocExpense_finite [OF Cons.prems]] show ?case by simp
qed

lemma initMembers_ids:
  assumes "\<forall>m \<in> set ms. truthy (id_m m)"
  shows "map id_m (initMembers rt ex ms) = map id_m ms"
proof (rule nth_equalityI)
  show "length (map id_m (initMembers rt ex ms)) = length (map id_m ms)"
    by (simp add: initMembers_length)
next
  fix i assume "i < length (map id_m (initMembers rt ex ms))"
  then have i: "i < length ms" by (simp add: initMembers_length)
  then have "truthy (id_m (ms ! i))" using assms by simp
  then show "map id_m (initMembers rt ex ms) ! i = map id_m ms ! i"
    using i by (simp add: initMembers_length initMembers_reinit reinit_closed)
qed

lemma initMembers_finite: "\<forall>x \<in> set (initMembers rt ex ms). isFinite (expenseShare x)"
  by (auto simp: initMembers_def resetShare_def Let_def)

text \<open>The members just before the last pass.\<close>

lemma allocated_ids:
  assumes "\<forall>m \<in> set ms. truthy (id_m m)"
  shows "map id_m (fold (allocExpense rt) es (initMembers rt ex ms)) = map id_m ms"
proof -
  have "map id_m (fold (allocExpense rt) es (initMembers rt ex ms))
        = map id_m (initMembers rt ex ms)"
    by (rule alloc_fold_map_inv) simp_all
  then show ?thesis by (simp only: initMembers_ids [OF assms])
qed

lemma allocExpense_length: "length (allocExpense rt e xs) = length xs"
proof -
  have "map id_m (allocExpense rt e xs) = map id_m xs"
    by (rule alloc_map_inv) simp_all
  then show ?thesis by (rule map_eq_imp_length_eq)
qed

lemma isFinite_finOf: "isFinite v \<Longrightarrow> v = JNum (Fin (finOf v))"
  by (cases v rule: isFinite.cases) (simp_all add: finOf_def)

lemma append_expense_share:
  assumes "members data = Some ms" and "expenses data = Some es"
    and "distinct (map id_m ms)" and "\<forall>m \<in> set ms. truthy (id_m m)"
    and "distinct (splitMembers e ms)" and "i < length ms"
  shows "\<exists>x. expenseShare (resultMembers (recalculateState rt data) ! i) = JNum (Fin x) \<and>
             expenseShare (resultMembers (recalculateState rt (pushExpense data e)) ! i)
             = JNum (Fin (if id_m (ms ! i) \<in> set (splitMembers e ms)
                          then x + expenseAmount rt e / of_nat (length (splitMembers e ms))
                          else x))"
proof -
  define ex where "ex = expectedShare rt (budget data) (length ms)"
  define xs where "xs = fold (allocExpense rt) es (initMembers rt ex ms)"
  have ids: "map id_m xs = map id_m ms"
    unfolding xs_def by (rule allocated_ids [OF assms(4)])
  then have len: "length xs = length ms" by (rule map_eq_imp_length_eq)
  have fin: "\<forall>x \<in> set xs. isFinite (expenseShare x)"
    unfolding xs_def by (rule alloc_fold_finite [OF initMembers_finite])
  have d: "distinct (map id_m xs)" using assms(3) by (simp only: ids)
  have t: "\<forall>x \<in> set xs. truthy (id_m x)" by (rule set_truthy_ids [OF ids assms(4)])
  have sp: "splitMembers e xs = splitMembers e ms" by (rule splitMembers_cong [OF ids])
  have ds: "distinct (splitMembers e xs)" using assms(5) by (simp only: sp)
  have i: "i < length xs" using assms(6) len by simp
  have idi: "id_m (xs ! i) = id_m (ms ! i)" by (rule map_eq_nth [OF ids i])
  have R: "resultMembers (recalculateState rt data) = map (finalize rt) xs"
    by (simp add: recalculateState_Some [OF assms(1,2)] resultMembers_def pipeline_def
          xs_def ex_def)
  have m2: "members (pushExpense data e) = Some ms"
    and e2: "expenses (pushExpense data e) = Some (es @ [e])"
    and b2: "budget (pushExpense data e) = budget data"
    using assms(1,2) by (simp_all add: pushExpense_def)
  have R': "resultMembers (recalculateState rt (pushExpense data e))
            = map (finalize rt) (allocExpense rt e xs)"
    by (simp add: recalculateState_Some [OF m2 e2] resultMembers_def pipeline_def
          xs_def ex_def b2)
  have la: "length (allocExpense rt e xs) = length xs"
    by (rule allocExpense_length)
  define x where "x = finOf (expenseShare (xs ! i))"
  have xi: "expenseShare (xs ! i) = JNum (Fin x)"
    unfolding x_def using fin i by (simp add: isFinite_finOf)
  have "expenseShare (resultMembers (recalculateState rt data) ! i) = JNum (Fin x)"
    using i by (simp add: R finalize_fields xi)
  moreover have "expenseShare (resultMembers (recalculateState rt (pushExpense data e)) ! i)
             = JNum (Fin (if id_m (ms ! i) \<in> set (splitMembers e ms)
                          then x + expenseAmount rt e / of_nat (length (splitMembers e ms))
                          else x))"
  proof -
    have "expenseShare (resultMembers (recalculateState rt (pushExpense data e)) ! i)
          = expenseShare (allocExpense rt e xs ! i)"
      using i la by (simp add: R' finalize_fields)
    also have "\<dots> = (if id_m (xs ! i) \<in> set (splitMembers e xs)
            then jsPlus rt (expenseShare (xs ! i))
                   (JNum (num_div (num_or_zero (parseFloat rt (amount e)))
                            (Fin (of_nat (length (splitMembers e xs))))))
            else expenseShare (xs ! i))"
      by (rule allocExpense_share_nth [OF d t ds i])
    also have "\<dots> = JNum (Fin (if id_m (ms ! i) \<in> set (splitMembers e ms)
                          then x + expenseAmount rt e / of_nat (length (splitMembers e ms))
                          else x))"
    proof (cases "id_m (ms ! i) \<in> set (splitMembers e ms)")
      case True
      then have "splitMembers e ms \<noteq> []" by auto
      with True show ?thesis
        by (simp add: sp idi xi num_or_zero_amount jsPlus_def)
    next
      case False
      then show ?thesis by (simp add: sp idi xi)
    qed
    finally show ?thesis .
  qed
  ultimately show ?thesis by blast
qed

lemma count_named:
  assumes "distinct (map id_m ms)" and "distinct S" and "set S \<subseteq> set (map id_m ms)"
  shows "length (filter (\<lambda>m. id_m m \<in> set S) ms) = length S"
proof -
  let ?ks = "filter (\<lambda>k. k \<in> set S) (map id_m ms)"
  have "length (filter (\<lambda>m. id_m m \<in> set S) ms) = length ?ks"
    by (simp add: filter_map comp_def)
  also have "\<dots> = card (set ?ks)"
  proof -
    have "distinct ?ks" using assms(1) by (rule distinct_filter)
    then show ?thesis by (rule distinct_card [symmetric])
  qed
  also have "set ?ks = set S" using assms(3) by auto
  also have "card (set S) = length S" using assms(2) by (rule distinct_card)
  finally show ?thesis .
qed

text \<open>
  Claim C3, as amended. Take a document with its members and expenses arrays whose members
  carry distinct truthy ids, and an expense of amount \<open>A\<close> (the value of
  \<^verbatim>\<open>parseFloat(e.amount) || 0\<close>) whose \<open>splitBetween\<close> is a non-empty list \<open>S\<close> of \<open>k\<close>
  ids, none repeated. Recomputing with the expense added gives every member named in \<open>S\<close>
  the \<open>expenseShare\<close> it has without the expense plus \<open>A / k\<close> (the source's quotient,
  added by the source's addition), and every other member the same \<open>expenseShare\<close>;
  when every id of \<open>S\<close> belongs to a member, exactly \<open>k\<close> members are charged.
\<close>

theorem split_between_shares:
  assumes "members data = Some ms" and "expenses data = Some es"
    and "distinct (map id_m ms)" and "\<forall>m \<in> set ms. truthy (id_m m)"
    and "splitBetween e = Some S" and "S \<noteq> []" and "distinct S"
  shows "(\<forall>i < length ms.
            \<exists>s. expenseShare (resultMembers (recalculateState rt data) ! i) = JNum s \<and>
                expenseShare (resultMembers (recalculateState rt (pushExpense data e)) ! i)
                = JNum (if id_m (ms ! i) \<in> set S
                        then num_add s (num_div (num_or_zero (parseFloat rt (amount e)))
                                          (Fin (of_nat (length S))))
                        else s)) \<and>
         (set S \<subseteq> set (map id_m ms) \<longrightarrow>
            length (filter (\<lambda>m. id_m m \<in> set S) ms) = length S)"
proof -
  let ?R = "resultMembers (recalculateState rt data)"
  let ?R' = "resultMembers (recalculateState rt (pushExpense data e))"
  have sp: "splitMembers e ms = S"
    using assms(5,6) by (cases S) (simp_all add: splitMembers_def)
  have dS: "distinct (splitMembers e ms)" using assms(7) by (simp only: sp)
  have k: "(of_nat (length S) :: rat) \<noteq> 0" using assms(6) by simp
  have pt: "\<exists>s. expenseShare (?R ! i) = JNum s \<and>
                expenseShare (?R' ! i)
                = JNum (if id_m (ms ! i) \<in> set S
                        then num_add s (num_div (num_or_zero (parseFloat rt (amount e)))
                                          (Fin (of_nat (length S))))
                        else s)"
    if "i < length ms" for i
  proof -
    from append_expense_share [OF assms(1-4) dS that, of rt] obtain x where
      x: "expenseShare (?R ! i) = JNum (Fin x)"
      and x': "expenseShare (?R' ! i)
             = JNum (Fin (if id_m (ms ! i) \<in> set (splitMembers e ms)
                          then x + expenseAmount rt e / of_nat (length (splitMembers e ms))
                          else x))"
      by blast
    have "expenseShare (?R' ! i)
          = JNum (if id_m (ms ! i) \<in> set S
                  then num_add (Fin x) (num_div (num_or_zero (parseFloat rt (amount e)))
                                          (Fin (of_nat (length S))))
                  else Fin x)"
      using k by (simp add: x' sp num_or_zero_amount)
    with x show ?thesis by blast
  qed
  have cnt: "length (filter (\<lambda>m. id_m m \<in> set S) ms) = length S"
    if "set S \<subseteq> set (map id_m ms)"
    by (rule count_named [OF assms(3,7) that])
  from pt cnt show ?thesis by blast
qed

theorem split_between_shares_witness:
  "members scenarioA = Some scenarioAMembers \<and> expenses scenarioA = Some [] \<and>
   distinct (map id_m scenarioAMembers) \<and> list_all (\<lambda>m. truthy (id_m m)) scenarioAMembers \<and>
   splitBetween scenarioBExpense
     = Some [JStr ''m1'', JStr ''m2'', JStr ''m3'', JStr ''m4'', JStr ''m5'', JStr ''m6''] \<and>
   set [JStr ''m1'', JStr ''m2'', JStr ''m3'', JStr ''m4'', JStr ''m5'', JStr ''m6'']
     \<subseteq> set (map id_m scenarioAMembers) \<and>
   (\<exists>s. expenseShare (resultMembers (recalculateState exRt scenarioA) ! 0) = JNum s \<and>
        expenseShare (resultMembers (recalculateState exRt (pushExpense scenarioA scenarioBExpense)) ! 0)
        = JNum (num_add s (Fin 200))) \<and>
   length (filter (\<lambda>m. id_m m \<in>
       set [JStr ''m1'', JStr ''m2'', JStr ''m3'', JStr ''m4'', JStr ''m5'', JStr ''m6''])
     scenarioAMembers) = 6"
proof -
  let ?S = "[JStr ''m1'', JStr ''m2'', JStr ''m3'', JStr ''m4'', JStr ''m5'', JStr ''m6'']"
  have h1: "members scenarioA = Some scenarioAMembers" and h2: "expenses scenarioA = Some []"
    by (simp_all add: scenarioA_def mkTrip_def)
  have h3: "distinct (map id_m scenarioAMembers)"
    by (simp add: scenarioAMembers_def mkMember_def)
  have h4l: "list_all (\<lambda>m. truthy (id_m m)) scenarioAMembers"
    by (simp add: scenarioAMembers_def mkMember_def)
  then have h4: "\<forall>m \<in> set scenarioAMembers. truthy (id_m m)" by (simp add: list_all_iff)
  have h5: "splitBetween scenarioBExpense = Some ?S" by (simp add: scenarioBExpense_def)
  have h6: "?S \<noteq> []" and h7: "distinct ?S" by simp_all
  have h8: "set ?S \<subseteq> set (map id_m scenarioAMembers)"
    by (simp add: scenarioAMembers_def mkMember_def)
  have a: "num_div (num_or_zero (parseFloat exRt (amount scenarioBExpense))) (Fin (of_nat (length ?S)))
           = Fin 200"
    by (simp add: scenarioBExpense_def)
  have i0: "0 < length scenarioAMembers" and m0: "id_m (scenarioAMembers ! 0) \<in> set ?S"
    by (simp_all add: scenarioAMembers_def mkMember_def)
  note inst = split_between_shares [OF h1 h2 h3 h4 h5 h6 h7, of exRt]
  from inst [THEN conjunct1, rule_format, OF i0]
  have p: "\<exists>s. expenseShare (resultMembers (recalculateState exRt scenarioA) ! 0) = JNum s \<and>
        expenseShare (resultMembers (recalculateState exRt (pushExpense scenarioA scenarioBExpense)) ! 0)
        = JNum (num_add s (Fin 200))"
    using m0 by (simp only: a if_True)
  from inst [THEN conjunct2, rule_format, OF h8]
  have c: "length (filter (\<lambda>m. id_m m \<in> set ?S) scenarioAMembers) = 6" by simp
  from p c h1 h2 h3 h4l h5 h8 show ?thesis by (simp only: simp_thms)
qed

text \<open>
  The claim as stated fails on a list that repeats an id: the list is taken as it is, so
  with \<open>S = [a, a, b]\<close> and \<open>A = 90\<close> member \<open>a\<close> is charged twice the share \<open>A / 3 = 30\<close>.
\<close>

theorem split_duplicate_counterexample:
  "splitBetween duplicateSplitExpense = Some [JStr ''a'', JStr ''a'', JStr ''b''] \<and>
   num_div (num_or_zero (parseFloat exRt (amount duplicateSplitExpense))) (Fin 3) = Fin 30 \<and>
   map expenseShare (resultMembers (recalculateState exRt twoMemberTrip))
     = [JNum (Fin 0), JNum (Fin 0)] \<and>
   map expenseShare
     (resultMembers (recalculateState exRt (pushExpense twoMemberTrip duplicateSplitExpense)))
     = [JNum (Fin 60), JNum (Fin 30)]"
  by code_simp


lemma splitMembers_legacy:
  assumes "splitBetween e = None \<or> splitBetween e = Some []"
  shows "splitMembers e ms =
          (if truthy (paidBy e) then
            (if paidBy e = JStr ''all_members'' \<or> paidBy e = JStr ''pool''
             then map id_m ms else [paidBy e])
          else [])"
  using assms by (auto simp: splitMembers_def)

text \<open>
  Claim C4. Take a document with its members and expenses arrays whose members carry
  distinct truthy ids, and an expense of amount \<open>A\<close> without a non-empty
  \<open>splitBetween\<close> list. Recomputing with the expense added changes the \<open>expenseShare\<close>
  of each member as follows: when \<open>paidBy\<close> is \<open>pool\<close> or \<open>all_members\<close>, every
  member's share grows by \<open>A\<close> divided by the number of members; when \<open>paidBy\<close> is
  another truthy value, the member with that id takes the full \<open>A\<close> and nobody else
  anything; when there is no \<open>paidBy\<close> either, no share changes.
\<close>

theorem legacy_split:
  assumes "members data = Some ms" and "expenses data = Some es"
    and "distinct (map id_m ms)" and "\<forall>m \<in> set ms. truthy (id_m m)"
    and "splitBetween e = None \<or> splitBetween e = Some []" and "i < length ms"
  shows "\<exists>x. expenseShare (resultMembers (recalculateState rt data) ! i) = JNum (Fin x) \<and>
             expenseShare (resultMembers (recalculateState rt (pushExpense data e)) ! i)
             = JNum (Fin (if paidBy e = JStr ''pool'' \<or> paidBy e = JStr ''all_members''
                          then x + expenseAmount rt e / of_nat (length ms)
                          else if truthy (paidBy e) \<and> id_m (ms ! i) = paidBy e
                          then x + expenseAmount rt e
                          else x))"
proof -
  note sp = splitMembers_legacy [OF assms(5), of ms]
  have d: "distinct (splitMembers e ms)"
    using assms(3) by (simp add: sp)
  from append_expense_share [OF assms(1-4) d assms(6), of rt] obtain x where
    x: "expenseShare (resultMembers (recalculateState rt data) ! i) = JNum (Fin x)"
    and x': "expenseShare (resultMembers (recalculateState rt (pushExpense data e)) ! i)
             = JNum (Fin (if id_m (ms ! i) \<in> set (splitMembers e ms)
                          then x + expenseAmount rt e / of_nat (length (splitMembers e ms))
                          else x))"
    by blast
  have "(if id_m (ms ! i) \<in> set (splitMembers e ms)
         then x + expenseAmount rt e / of_nat (length (splitMembers e ms)) else x)
        = (if paidBy e = JStr ''pool'' \<or> paidBy e = JStr ''all_members''
           then x + expenseAmount rt e / of_nat (length ms)
           else if truthy (paidBy e) \<and> id_m (ms ! i) = paidBy e
           then x + expenseAmount rt e
           else x)"
    using assms(6) by (auto simp: sp)
  with x x' show ?thesis by auto
qed


theorem legacy_split_witness:
  "members scenarioA = Some scenarioAMembers \<and> expenses scenarioA = Some [] \<and>
   distinct (map id_m scenarioAMembers) \<and> list_all (\<lambda>m. truthy (id_m m)) scenarioAMembers \<and>
   (\<exists>x. expenseShare (resultMembers (recalculateState exRt scenarioA) ! 0) = JNum (Fin x) \<and>
      expenseShare (resultMembers (recalculateState exRt
        (pushExpense scenarioA (legacyExpense (JStr ''pool'') None))) ! 0) = JNum (Fin (x + 100))) \<and>
   (\<exists>x. expenseShare (resultMembers (recalculateState exRt scenarioA) ! 1) = JNum (Fin x) \<and>
      expenseShare (resultMembers (recalculateState exRt
        (pushExpense scenarioA (legacyExpense (JStr ''m2'') None))) ! 1) = JNum (Fin (x + 600))) \<and>
   (\<exists>x. expenseShare (resultMembers (recalculateState exRt scenarioA) ! 0) = JNum (Fin x) \<and>
      expenseShare (resultMembers (recalculateState exRt
        (pushExpense scenarioA (legacyExpense (JStr ''m2'') None))) ! 0) = JNum (Fin x)) \<and>
   (\<exists>x. expenseShare (resultMembers (recalculateState exRt scenarioA) ! 0) = JNum (Fin x) \<and>
      expenseShare (resultMembers (recalculateState exRt
        (pushExpense scenarioA (legacyExpense JUndefined (Some [])))) ! 0) = JNum (Fin x))"
proof -
  have h1: "members scenarioA = Some scenarioAMembers" and h2: "expenses scenarioA = Some []"
    by (simp_all add: scenarioA_def mkTrip_def)
  have h3: "distinct (map id_m scenarioAMembers)"
    by (simp add: scenarioAMembers_def mkMember_def)
  have h4l: "list_all (\<lambda>m. truthy (id_m m)) scenarioAMembers"
    by (simp add: scenarioAMembers_def mkMember_def)
  then have h4: "\<forall>m \<in> set scenarioAMembers. truthy (id_m m)" by (simp add: list_all_iff)
  have n: "length scenarioAMembers = 6" "id_m (scenarioAMembers ! 0) = JStr ''m1''"
    "id_m (scenarioAMembers ! Suc 0) = JStr ''m2''"
    by (simp_all add: scenarioAMembers_def mkMember_def)
  have i0: "0 < length scenarioAMembers" and i1: "1 < length scenarioAMembers"
    by (simp_all add: n)
  have a: "expenseAmount exRt (legacyExpense p s) = 600" for p s
    by (simp add: expenseAmount_def legacyExpense_def)
  have f: "splitBetween (legacyExpense p None) = None \<or> splitBetween (legacyExpense p None) = Some []"
    "splitBetween (legacyExpense p (Some [])) = None \<or> splitBetween (legacyExpense p (Some [])) = Some []"
    "paidBy (legacyExpense p s) = p" for p s
    by (simp_all add: legacyExpense_def)
  from legacy_split [OF h1 h2 h3 h4 f(1) [of "JStr ''pool''"] i0, where rt = exRt]
  have c1: "\<exists>x. expenseShare (resultMembers (recalculateState exRt scenarioA) ! 0) = JNum (Fin x) \<and>
      expenseShare (resultMembers (recalculateState exRt
        (pushExpense scenarioA (legacyExpense (JStr ''pool'') None))) ! 0) = JNum (Fin (x + 100))"
    by (simp add: f(3) a n)
  from legacy_split [OF h1 h2 h3 h4 f(1) [of "JStr ''m2''"] i1, where rt = exRt]
  have c2: "\<exists>x. expenseShare (resultMembers (recalculateState exRt scenarioA) ! 1) = JNum (Fin x) \<and>
      expenseShare (resultMembers (recalculateState exRt
        (pushExpense scenarioA (legacyExpense (JStr ''m2'') None))) ! 1) = JNum (Fin (x + 600))"
    by (simp add: f(3) a n)
  from legacy_split [OF h1 h2 h3 h4 f(1) [of "JStr ''m2''"] i0, where rt = exRt]
  have c3: "\<exists>x. expenseShare (resultMembers (recalculateState exRt scenarioA) ! 0) = JNum (Fin x) \<and>
      expenseShare (resultMembers (recalculateState exRt
        (pushExpense scenarioA (legacyExpense (JStr ''m2'') None))) ! 0) = JNum (Fin x)"
    by (simp add: f(3) a n)
  from legacy_split [OF h1 h2 h3 h4 f(2) [of JUndefined] i0, where rt = exRt]
  have c4: "\<exists>x. expenseShare (resultMembers (recalculateState exRt scenarioA) ! 0) = JNum (Fin x) \<and>
      expenseShare (resultMembers (recalculateState exRt
        (pushExpense scenarioA (legacyExpense JUndefined (Some [])))) ! 0) = JNum (Fin x)"
    by (simp add: f(3) a n)
  from c1 c2 c3 c4 h1 h2 h3 h4l show ?thesis by (simp only: simp_thms)
qed

section \<open>The finalization formulas\<close>










section \<open>Contributions\<close>

text \<open>
  Claim C7 fails on the code. Member \<open>a\<close> of \<open>overpayTrip\<close> owes 1000 and pays 1500. Both
  \<^verbatim>\<open>/api/members/contribute\<close> and \<^verbatim>\<open>/api/contributions/approve\<close> of
  \<^verbatim>\<open>server.js\<close> add the whole 1500 to \<open>actualContribution\<close> (5500) and nothing to
  \<open>personal\<close>. The multi-trip version adds only the covering 1000, but the excess of 500
  it puts into \<open>personal\<close> is reset to 0 by the recomputation that follows.
\<close>

theorem overpayment_not_routed:
  "recalculateState exRt overpayTrip = Inr overpayTrip \<and>
   remainingContribution (inputMembers overpayTrip ! 0) = JNum (Fin 1000) \<and>
   fst (contribute exRt overpayTrip (JStr ''a'') (JNum (Fin 1500)) (JBool True)) = Ok \<and>
   actualContribution (inputMembers
     (snd (contribute exRt overpayTrip (JStr ''a'') (JNum (Fin 1500)) (JBool True))) ! 0)
     = JNum (Fin 5500) \<and>
   personal (inputMembers
     (snd (contribute exRt overpayTrip (JStr ''a'') (JNum (Fin 1500)) (JBool True))) ! 0)
     = JNum (Fin 0) \<and>
   fst (contributionsApprove exRt overpayTrip (JStr ''r1'') (JStr ''approve'')) = Ok \<and>
   actualContribution (inputMembers
     (snd (contributionsApprove exRt overpayTrip (JStr ''r1'') (JStr ''approve''))) ! 0)
     = JNum (Fin 5500) \<and>
   personal (inputMembers
     (snd (contributionsApprove exRt overpayTrip (JStr ''r1'') (JStr ''approve''))) ! 0)
     = JNum (Fin 0) \<and>
   actualContribution (inputMembers
     (snd (contributeSplitting exRt overpayTrip (JStr ''a'') (JNum (Fin 1500)) (JBool True))) ! 0)
     = JNum (Fin 5000) \<and>
   personal (inputMembers
     (snd (contributeSplitting exRt overpayTrip (JStr ''a'') (JNum (Fin 1500)) (JBool True))) ! 0)
     = JNum (Fin 0)"
  by code_simp

section \<open>Refunds\<close>

lemma find_None_findIndex: "(find p xs = None) = (findIndex p xs = None)"
  by (induction xs) simp_all

lemma findIndex_Some:
  "findIndex p xs = Some i \<Longrightarrow> i < length xs \<and> p (xs ! i)"
proof (induction xs arbitrary: i)
  case Nil
  then show ?case by simp
next
  case (Cons x xs)
  show ?case
  proof (cases "p x")
    case True
    with Cons.prems show ?thesis by simp
  next
    case False
    with Cons.prems obtain j where j: "findIndex p xs = Some j" "i = Suc j" by auto
    from Cons.IH [OF j(1)] j(2) show ?thesis by simp
  qed
qed

lemma findUpdate_findIndex:
  "findIndex p xs = Some i \<Longrightarrow> findUpdate p f xs = xs[i := f (xs ! i)]"
proof (induction xs arbitrary: i)
  case Nil
  then show ?case by simp
next
  case (Cons x xs)
  show ?case
  proof (cases "p x")
    case True
    with Cons.prems show ?thesis by simp
  next
    case False
    with Cons.prems obtain j where j: "findIndex p xs = Some j" "i = Suc j" by auto
    from Cons.IH [OF j(1)] j(2) False show ?thesis by simp
  qed
qed

lemma recalcAndWrite_Some:
  assumes "members data = Some ms" and "expenses data = Some es"
  shows "recalcAndWrite rt stored data =
     (Ok, data\<lparr>members := Some (pipeline rt (expectedShare rt (budget data) (length ms)) es ms)\<rparr>)"
  by (simp add: recalcAndWrite_def recalculateState_Some [OF assms])

text \<open>The member change made by the refund handler.\<close>

lemma refund_accepted:
  assumes ms: "members data = Some ms" and es: "expenses data = Some es"
    and i: "findIndex (\<lambda>m. strictEq (id_m m) ident) ms = Some i"
    and r: "parseFloat rt amt = Fin r" and pos: "0 < r"
  shows "fst (refund rt data ident amt) = Ok"
    and "actualContribution (inputMembers (snd (refund rt data ident amt)) ! i)
         = JNum (jsMinus rt (jsOr (actualContribution (ms ! i)) (JNum (Fin 0))) (JNum (Fin r)))"
proof -
  let ?f = "\<lambda>member. member\<lparr>actualContribution :=
              JNum (jsMinus rt (jsOr (actualContribution member) (JNum (Fin 0))) (JNum (Fin r)))\<rparr>"
  let ?ms1 = "findUpdate (\<lambda>m. strictEq (id_m m) ident) ?f ms"
  let ?d1 = "data\<lparr>members := Some ?ms1\<rparr>"
  let ?ex = "expectedShare rt (budget ?d1) (length ?ms1)"
  from findIndex_Some [OF i] have il: "i < length ms" by simp
  have found: "find (\<lambda>m. strictEq (id_m m) ident) ms \<noteq> None"
    using i by (simp add: find_None_findIndex)
  have m1: "members ?d1 = Some ?ms1" and e1: "expenses ?d1 = Some es"
    using es by simp_all
  have run: "refund rt data ident amt = (Ok, ?d1\<lparr>members := Some (pipeline rt ?ex es ?ms1)\<rparr>)"
    using found r pos ms
    by (simp add: refund_def recalcAndWrite_Some [OF m1 e1])
  show "fst (refund rt data ident amt) = Ok" by (simp add: run)
  have l1: "length ?ms1 = length ms" by (rule findUpdate_length)
  have a1: "actualContribution (?ms1 ! i)
            = JNum (jsMinus rt (jsOr (actualContribution (ms ! i)) (JNum (Fin 0))) (JNum (Fin r)))"
    using il by (simp add: findUpdate_findIndex [OF i])
  have "actualContribution (pipeline rt ?ex es ?ms1 ! i) = coerceField (actualContribution (?ms1 ! i))"
    using il l1 by (simp only: pipeline_actual)
  also have "\<dots> = JNum (jsMinus rt (jsOr (actualContribution (ms ! i)) (JNum (Fin 0))) (JNum (Fin r)))"
    by (simp add: a1 coerceField_def)
  finally show "actualContribution (inputMembers (snd (refund rt data ident amt)) ! i)
         = JNum (jsMinus rt (jsOr (actualContribution (ms ! i)) (JNum (Fin 0))) (JNum (Fin r)))"
    by (simp add: run inputMembers_def)
qed

lemma refund_rejected:
  assumes ms: "members data = Some ms"
    and rej: "find (\<lambda>m. strictEq (id_m m) ident) ms = None \<or> parseFloat rt amt = NaN \<or>
              (\<exists>r. parseFloat rt amt = Fin r \<and> r \<le> 0)"
  shows "refund rt data ident amt
         = (if find (\<lambda>m. strictEq (id_m m) ident) ms = None then NotFound else BadRequest, data)"
  using ms rej by (auto simp: refund_def)

text \<open>
  Claim C10. On a stored document with its members and expenses arrays, the refund
  endpoint answers with an error exactly when no member has the given id, or the amount
  does not parse to a number, or the parsed amount is not strictly positive; the error is
  404 or 400 and the stored document is unchanged. Every accepted refund stores, for the
  member found, \<open>(actualContribution || 0) - amount\<close> as \<open>actualContribution\<close>. There is
  no upper bound: whenever the amount exceeds a finite \<open>actualContribution\<close>, the refund
  is accepted and the stored \<open>actualContribution\<close> is negative.
\<close>

theorem refund_behaviour:
  assumes "members data = Some ms" and "expenses data = Some es"
  shows "(fst (refund rt data ident amt) \<noteq> Ok \<longleftrightarrow>
            find (\<lambda>m. strictEq (id_m m) ident) ms = None \<or> parseFloat rt amt = NaN \<or>
            (\<exists>r. parseFloat rt amt = Fin r \<and> r \<le> 0)) \<and>
         (fst (refund rt data ident amt) \<noteq> Ok \<longrightarrow>
            snd (refund rt data ident amt) = data \<and>
            (fst (refund rt data ident amt) = NotFound \<or>
             fst (refund rt data ident amt) = BadRequest)) \<and>
         (\<forall>i r. fst (refund rt data ident amt) = Ok \<and>
                findIndex (\<lambda>m. strictEq (id_m m) ident) ms = Some i \<and>
                parseFloat rt amt = Fin r \<longrightarrow>
                actualContribution (inputMembers (snd (refund rt data ident amt)) ! i)
                = JNum (jsMinus rt (jsOr (actualContribution (ms ! i)) (JNum (Fin 0)))
                          (JNum (Fin r)))) \<and>
         (\<forall>i a r. findIndex (\<lambda>m. strictEq (id_m m) ident) ms = Some i \<and>
                actualContribution (ms ! i) = JNum (Fin a) \<and>
                parseFloat rt amt = Fin r \<and> 0 < r \<and> a < r \<longrightarrow>
                fst (refund rt data ident amt) = Ok \<and>
                actualContribution (inputMembers (snd (refund rt data ident amt)) ! i)
                = JNum (Fin (a - r)) \<and> a - r < 0)"
proof -
  let ?rej = "find (\<lambda>m. strictEq (id_m m) ident) ms = None \<or> parseFloat rt amt = NaN \<or>
            (\<exists>r. parseFloat rt amt = Fin r \<and> r \<le> 0)"
  have rejD: "fst (refund rt data ident amt) \<noteq> Ok \<and> snd (refund rt data ident amt) = data \<and>
            (fst (refund rt data ident amt) = NotFound \<or>
             fst (refund rt data ident amt) = BadRequest)" if ?rej
    by (simp add: refund_rejected [OF assms(1) that])
  have accD: "fst (refund rt data ident amt) = Ok" if "\<not> ?rej"
  proof -
    from that obtain i where i: "findIndex (\<lambda>m. strictEq (id_m m) ident) ms = Some i"
      by (auto simp: find_None_findIndex)
    from that obtain r where r: "parseFloat rt amt = Fin r" "0 < r"
      by (cases "parseFloat rt amt") auto
    show ?thesis by (rule refund_accepted(1) [OF assms i r])
  qed
  have c1: "fst (refund rt data ident amt) \<noteq> Ok \<longleftrightarrow> ?rej"
    using rejD accD by blast
  have c2: "fst (refund rt data ident amt) \<noteq> Ok \<longrightarrow>
            snd (refund rt data ident amt) = data \<and>
            (fst (refund rt data ident amt) = NotFound \<or>
             fst (refund rt data ident amt) = BadRequest)"
    using rejD c1 by blast
  have c3: "actualContribution (inputMembers (snd (refund rt data ident amt)) ! i)
                = JNum (jsMinus rt (jsOr (actualContribution (ms ! i)) (JNum (Fin 0)))
                          (JNum (Fin r)))"
    if "fst (refund rt data ident amt) = Ok"
      "findIndex (\<lambda>m. strictEq (id_m m) ident) ms = Some i" "parseFloat rt amt = Fin r" for i r
  proof -
    from that(1) c1 have "\<not> ?rej" by blast
    with that(3) have "0 < r" by auto
    from refund_accepted(2) [OF assms that(2,3) this] show ?thesis .
  qed
  have c4: "fst (refund rt data ident amt) = Ok \<and>
                actualContribution (inputMembers (snd (refund rt data ident amt)) ! i)
                = JNum (Fin (a - r)) \<and> a - r < 0"
    if "findIndex (\<lambda>m. strictEq (id_m m) ident) ms = Some i"
      "actualContribution (ms ! i) = JNum (Fin a)" "parseFloat rt amt = Fin r" "0 < r" "a < r"
    for i a r
  proof -
    have "jsMinus rt (jsOr (actualContribution (ms ! i)) (JNum (Fin 0))) (JNum (Fin r)) = Fin (a - r)"
      by (simp add: that(2) jsOr_def jsMinus_def)
    with refund_accepted [OF assms that(1,3,4)] that(5) show ?thesis by simp
  qed
  from c1 c2 c3 c4 show ?thesis by blast
qed


theorem refund_behaviour_witness:
  "members refundTrip = Some (inputMembers refundTrip) \<and> expenses refundTrip = Some [] \<and>
   findIndex (\<lambda>m. strictEq (id_m m) (JStr ''a'')) (inputMembers refundTrip) = Some 0 \<and>
   actualContribution (inputMembers refundTrip ! 0) = JNum (Fin 100) \<and>
   fst (refund exRt refundTrip (JStr ''a'') (JNum (Fin 150))) = Ok \<and>
   actualContribution (inputMembers (snd (refund exRt refundTrip (JStr ''a'') (JNum (Fin 150)))) ! 0)
     = JNum (Fin (- 50)) \<and>
   fst (refund exRt refundTrip (JStr ''a'') (JNum (Fin 0))) \<noteq> Ok \<and>
   snd (refund exRt refundTrip (JStr ''a'') (JNum (Fin 0))) = refundTrip \<and>
   fst (refund exRt refundTrip (JStr ''a'') (JStr ''abc'')) \<noteq> Ok \<and>
   snd (refund exRt refundTrip (JStr ''a'') (JStr ''abc'')) = refundTrip \<and>
   fst (refund exRt refundTrip (JStr ''zz'') (JNum (Fin 150))) \<noteq> Ok \<and>
   snd (refund exRt refundTrip (JStr ''zz'') (JNum (Fin 150))) = refundTrip"
proof -
  let ?ms = "inputMembers refundTrip"
  have h1: "members refundTrip = Some ?ms" and h2: "expenses refundTrip = Some []"
    by (simp_all add: refundTrip_def mkTrip_def inputMembers_def)
  have ix: "findIndex (\<lambda>m. strictEq (id_m m) (JStr ''a'')) ?ms = Some 0"
    and ac: "actualContribution (?ms ! 0) = JNum (Fin 100)"
    and nf: "find (\<lambda>m. strictEq (id_m m) (JStr ''zz'')) ?ms = None"
    by (simp_all add: refundTrip_def mkTrip_def inputMembers_def mkMember_def strictEq_def)
  have p: "parseFloat exRt (JNum (Fin 150)) = Fin 150" "parseFloat exRt (JNum (Fin 0)) = Fin 0"
    "parseFloat exRt (JStr ''abc'') = NaN"
    by (simp_all add: exRt_def)
  note r150 = refund_behaviour [OF h1 h2, of exRt "JStr ''a''" "JNum (Fin 150)"]
  note r0 = refund_behaviour [OF h1 h2, of exRt "JStr ''a''" "JNum (Fin 0)"]
  note rabc = refund_behaviour [OF h1 h2, of exRt "JStr ''a''" "JStr ''abc''"]
  note rzz = refund_behaviour [OF h1 h2, of exRt "JStr ''zz''" "JNum (Fin 150)"]
  have pre: "findIndex (\<lambda>m. strictEq (id_m m) (JStr ''a'')) ?ms = Some 0 \<and>
      actualContribution (?ms ! 0) = JNum (Fin 100) \<and>
      parseFloat exRt (JNum (Fin 150)) = Fin 150 \<and> (0::rat) < 150 \<and> (100::rat) < 150"
    using ix ac p(1) by simp
  from r150 [THEN conjunct2, THEN conjunct2, THEN conjunct2, rule_format, OF pre]
  have c1: "fst (refund exRt refundTrip (JStr ''a'') (JNum (Fin 150))) = Ok \<and>
     actualContribution (inputMembers (snd (refund exRt refundTrip (JStr ''a'') (JNum (Fin 150)))) ! 0)
     = JNum (Fin (- 50))"
    by simp
  have rej0: "find (\<lambda>m. strictEq (id_m m) (JStr ''a'')) ?ms = None \<or>
      parseFloat exRt (JNum (Fin 0)) = NaN \<or> (\<exists>r. parseFloat exRt (JNum (Fin 0)) = Fin r \<and> r \<le> 0)"
    using p(2) by simp
  have n0: "fst (refund exRt refundTrip (JStr ''a'') (JNum (Fin 0))) \<noteq> Ok"
    using r0 [THEN conjunct1] rej0 by (rule iffD2)
  from r0 [THEN conjunct2, THEN conjunct1, rule_format, OF n0] n0
  have c2: "fst (refund exRt refundTrip (JStr ''a'') (JNum (Fin 0))) \<noteq> Ok \<and>
     snd (refund exRt refundTrip (JStr ''a'') (JNum (Fin 0))) = refundTrip"
    by simp
  have rejabc: "find (\<lambda>m. strictEq (id_m m) (JStr ''a'')) ?ms = None \<or>
      parseFloat exRt (JStr ''abc'') = NaN \<or>
      (\<exists>r. parseFloat exRt (JStr ''abc'') = Fin r \<and> r \<le> 0)"
    using p(3) by simp
  have nabc: "fst (refund exRt refundTrip (JStr ''a'') (JStr ''abc'')) \<noteq> Ok"
    using rabc [THEN conjunct1] rejabc by (rule iffD2)
  from rabc [THEN conjunct2, THEN conjunct1, rule_format, OF nabc] nabc
  have c3: "fst (refund exRt refundTrip (JStr ''a'') (JStr ''abc'')) \<noteq> Ok \<and>
     snd (refund exRt refundTrip (JStr ''a'') (JStr ''abc'')) = refundTrip"
    by simp
  have rejzz: "find (\<lambda>m. strictEq (id_m m) (JStr ''zz'')) ?ms = None \<or>
      parseFloat exRt (JNum (Fin 150)) = NaN \<or>
      (\<exists>r. parseFloat exRt (JNum (Fin 150)) = Fin r \<and> r \<le> 0)"
    using nf by simp
  have nzz: "fst (refund exRt refundTrip (JStr ''zz'') (JNum (Fin 150))) \<noteq> Ok"
    using rzz [THEN conjunct1] rejzz by (rule iffD2)
  from rzz [THEN conjunct2, THEN conjunct1, rule_format, OF nzz] nzz
  have c4: "fst (refund exRt refundTrip (JStr ''zz'') (JNum (Fin 150))) \<noteq> Ok \<and>
     snd (refund exRt refundTrip (JStr ''zz'') (JNum (Fin 150))) = refundTrip"
    by simp
  from c1 c2 c3 c4 h1 h2 ix ac show ?thesis by (simp only: simp_thms)
qed

section \<open>Admin protection\<close>

lemma removeAt_Cons: "0 < i \<Longrightarrow> removeAt i (a # rest) = a # removeAt (i - 1) rest"
  by (cases i) (simp_all add: removeAt_def)

lemma pipeline_Cons:
  "\<exists>a' rest'. pipeline rt ex es (a # xs) = a' # rest' \<and> name a' = name a \<and>
     (if truthy (id_m a) then id_m a' = id_m a else True)"
proof -
  let ?P = "pipeline rt ex es (a # xs)"
  have len: "length ?P = Suc (length xs)" by (simp add: pipeline_length)
  then obtain a' rest' where P: "?P = a' # rest'" by (cases ?P) simp_all
  have "name (?P ! 0) = name (initMember rt ex 0 ((a # xs) ! 0))"
    by (rule pipeline_nth_inv) (simp_all add: finalize_def Let_def)
  then have n: "name a' = name a" by (simp add: P initMember_def Let_def)
  have "id_m (?P ! 0) = id_m (initMember rt ex 0 ((a # xs) ! 0))"
    by (rule pipeline_nth_inv) (simp_all add: finalize_fields)
  then have "truthy (id_m a) \<Longrightarrow> id_m a' = id_m a" by (simp add: P initMember_def Let_def)
  with P n show ?thesis by auto
qed

lemma keepsAdmin_same: "members data = Some (a # rest) \<Longrightarrow> keepsAdmin a data"
  by (simp add: keepsAdmin_def)

lemma keepsAdmin_pending:
  "keepsAdmin a (data\<lparr>pendingDeletions := p\<rparr>) = keepsAdmin a data"
  by (simp add: keepsAdmin_def)

lemma keepsAdmin_recalc:
  assumes "0 < i" and "members data = Some (a # rest)"
    and "recalculateState rt (data\<lparr>members := Some (removeAt i (a # rest))\<rparr>) = Inr d"
  shows "keepsAdmin a d"
proof -
  let ?d1 = "data\<lparr>members := Some (a # removeAt (i - 1) rest)\<rparr>"
  from assms(1,3) have run: "recalculateState rt ?d1 = Inr d" by (simp add: removeAt_Cons)
  then obtain es where es: "expenses ?d1 = Some es"
    by (cases "expenses ?d1") (simp_all add: recalculateState_def Let_def)
  have m1: "members ?d1 = Some (a # removeAt (i - 1) rest)" by simp
  define ex where "ex = expectedShare rt (budget ?d1) (length (a # removeAt (i - 1) rest))"
  from run have d: "d = ?d1\<lparr>members := Some (pipeline rt ex es (a # removeAt (i - 1) rest))\<rparr>"
    unfolding recalculateState_Some [OF m1 es] ex_def by simp
  from pipeline_Cons [of rt ex es a "removeAt (i - 1) rest"] obtain a' rest' where
    "pipeline rt ex es (a # removeAt (i - 1) rest) = a' # rest'" "name a' = name a"
    "if truthy (id_m a) then id_m a' = id_m a else True"
    by blast
  then show ?thesis by (simp add: keepsAdmin_def d)
qed

lemma deleteMember_keepsAdmin:
  assumes "members data = Some (a # rest)"
  shows "keepsAdmin a (snd (deleteMember rt data ident))"
proof (cases "findIndex (\<lambda>m. strictEq (id_m m) ident) (a # rest)")
  case None
  with assms show ?thesis by (simp add: deleteMember_def keepsAdmin_same)
next
  case (Some i)
  show ?thesis
  proof (cases "i = 0")
    case True
    with Some assms show ?thesis by (simp add: deleteMember_def keepsAdmin_same)
  next
    case False
    then have pos: "0 < i" by simp
    let ?d1 = "data\<lparr>members := Some (removeAt i (a # rest))\<rparr>"
    have dm: "deleteMember rt data ident = recalcAndWrite rt data ?d1"
      using assms Some False by (simp add: deleteMember_def)
    show ?thesis
    proof (cases "recalculateState rt ?d1")
      case (Inl e)
      with dm assms show ?thesis by (simp add: recalcAndWrite_def keepsAdmin_same)
    next
      case (Inr d)
      from keepsAdmin_recalc [OF pos assms Inr] dm Inr show ?thesis
        by (simp add: recalcAndWrite_def)
    qed
  qed
qed

lemma approveDeletion_keepsAdmin:
  assumes "members data = Some (a # rest)" and "approveDeletion rt data request = Inr d"
  shows "keepsAdmin a d"
proof (cases "findIndex (\<lambda>m. strictEq (id_m m) (memberId_d request)) (a # rest)")
  case None
  with assms show ?thesis by (simp add: approveDeletion_def keepsAdmin_same)
next
  case (Some i)
  show ?thesis
  proof (cases "i = 0")
    case True
    with Some assms show ?thesis by (simp add: approveDeletion_def keepsAdmin_same)
  next
    case False
    then have pos: "0 < i" by simp
    from assms Some False
    have "recalculateState rt (data\<lparr>members := Some (removeAt i (a # rest))\<rparr>) = Inr d"
      by (simp add: approveDeletion_def)
    from keepsAdmin_recalc [OF pos assms(1) this] show ?thesis .
  qed
qed

lemma deleteApprove_keepsAdmin:
  assumes "members data = Some (a # rest)"
  shows "keepsAdmin a (snd (deleteApprove rt data rid action))"
proof (cases "findIndex (\<lambda>r. strictEq (id_d r) rid) (pendingDeletions data)")
  case None
  with assms show ?thesis by (simp add: deleteApprove_def keepsAdmin_same)
next
  case (Some j)
  let ?r = "if action = JStr ''approve''
            then approveDeletion rt data (pendingDeletions data ! j) else Inr data"
  show ?thesis
  proof (cases ?r)
    case (Inl e)
    with Some assms show ?thesis by (simp add: deleteApprove_def keepsAdmin_same)
  next
    case (Inr d)
    have "keepsAdmin a d"
    proof (cases "action = JStr ''approve''")
      case True
      with Inr have "approveDeletion rt data (pendingDeletions data ! j) = Inr d" by simp
      from approveDeletion_keepsAdmin [OF assms this] show ?thesis .
    next
      case False
      with Inr have "d = data" by simp
      with assms show ?thesis by (simp add: keepsAdmin_same)
    qed
    with Some Inr show ?thesis by (simp add: deleteApprove_def keepsAdmin_pending)
  qed
qed

text \<open>
  Claim C8. On a stored document whose member list starts with the administrator \<open>a\<close>:
  a direct delete whose id resolves to index 0 is answered 403 and stores nothing;
  approving a deletion request whose target resolves to index 0 answers 200, leaves the
  member list as it is and removes the request from the queue; and whatever the request,
  after the direct delete and after the deletion approval the stored member list still
  starts with \<open>a\<close>.
\<close>

theorem admin_never_removed:
  assumes "members data = Some (a # rest)"
  shows "(findIndex (\<lambda>m. strictEq (id_m m) ident) (a # rest) = Some 0 \<longrightarrow>
            deleteMember rt data ident = (Forbidden, data)) \<and>
         (\<forall>j. findIndex (\<lambda>r. strictEq (id_d r) rid) (pendingDeletions data) = Some j \<and>
              findIndex (\<lambda>m. strictEq (id_m m) (memberId_d (pendingDeletions data ! j))) (a # rest)
                = Some 0 \<longrightarrow>
              deleteApprove rt data rid (JStr ''approve'')
                = (Ok, data\<lparr>pendingDeletions := removeAt j (pendingDeletions data)\<rparr>)) \<and>
         keepsAdmin a (snd (deleteMember rt data ident)) \<and>
         keepsAdmin a (snd (deleteApprove rt data rid action))"
proof -
  have c1: "deleteMember rt data ident = (Forbidden, data)"
    if "findIndex (\<lambda>m. strictEq (id_m m) ident) (a # rest) = Some 0"
    using that assms by (simp add: deleteMember_def)
  have c2: "deleteApprove rt data rid (JStr ''approve'')
                = (Ok, data\<lparr>pendingDeletions := removeAt j (pendingDeletions data)\<rparr>)"
    if "findIndex (\<lambda>r. strictEq (id_d r) rid) (pendingDeletions data) = Some j"
      "findIndex (\<lambda>m. strictEq (id_m m) (memberId_d (pendingDeletions data ! j))) (a # rest) = Some 0"
    for j
    using that assms by (simp add: deleteApprove_def approveDeletion_def)
  from c1 c2 deleteMember_keepsAdmin [OF assms] deleteApprove_keepsAdmin [OF assms]
  show ?thesis by blast
qed


theorem admin_never_removed_witness:
  "members adminTrip = Some (mkMember ''admin'' 0 # [mkMember ''b'' 0, mkMember ''c'' 0]) \<and>
   findIndex (\<lambda>m. strictEq (id_m m) (JStr ''admin''))
     (mkMember ''admin'' 0 # [mkMember ''b'' 0, mkMember ''c'' 0]) = Some 0 \<and>
   deleteMember exRt adminTrip (JStr ''admin'') = (Forbidden, adminTrip) \<and>
   findIndex (\<lambda>r. strictEq (id_d r) (JStr ''d1'')) (pendingDeletions adminTrip) = Some 0 \<and>
   deleteApprove exRt adminTrip (JStr ''d1'') (JStr ''approve'')
     = (Ok, adminTrip\<lparr>pendingDeletions := [\<lparr>id_d = JStr ''d2'', memberId_d = JStr ''c''\<rparr>]\<rparr>) \<and>
   keepsAdmin (mkMember ''admin'' 0) (snd (deleteMember exRt adminTrip (JStr ''b''))) \<and>
   keepsAdmin (mkMember ''admin'' 0)
     (snd (deleteApprove exRt adminTrip (JStr ''d2'') (JStr ''approve'')))"
proof -
  let ?a = "mkMember ''admin'' 0"
  let ?rest = "[mkMember ''b'' 0, mkMember ''c'' 0]"
  have h: "members adminTrip = Some (?a # ?rest)"
    by (simp add: adminTrip_def mkTrip_def)
  have i0: "findIndex (\<lambda>m. strictEq (id_m m) (JStr ''admin'')) (?a # ?rest) = Some 0"
    by (simp add: mkMember_def strictEq_def)
  have j0: "findIndex (\<lambda>r. strictEq (id_d r) (JStr ''d1'')) (pendingDeletions adminTrip) = Some 0"
    by (simp add: adminTrip_def strictEq_def)
  have t0: "findIndex (\<lambda>m. strictEq (id_m m) (memberId_d (pendingDeletions adminTrip ! 0)))
              (?a # ?rest) = Some 0"
    by (simp add: adminTrip_def mkMember_def strictEq_def)
  have rm: "removeAt 0 (pendingDeletions adminTrip) = [\<lparr>id_d = JStr ''d2'', memberId_d = JStr ''c''\<rparr>]"
    by (simp add: adminTrip_def removeAt_def)
  note first = admin_never_removed [OF h, where ident = "JStr ''admin''" and rid = "JStr ''d1''"
    and rt = exRt and action = "JStr ''approve''"]
  note other = admin_never_removed [OF h, where ident = "JStr ''b''" and rid = "JStr ''d2''"
    and rt = exRt and action = "JStr ''approve''"]
  from first [THEN conjunct1, rule_format, OF i0]
  have c1: "deleteMember exRt adminTrip (JStr ''admin'') = (Forbidden, adminTrip)" .
  from first [THEN conjunct2, THEN conjunct1, rule_format, OF conjI [OF j0 t0]]
  have c2: "deleteApprove exRt adminTrip (JStr ''d1'') (JStr ''approve'')
     = (Ok, adminTrip\<lparr>pendingDeletions := [\<lparr>id_d = JStr ''d2'', memberId_d = JStr ''c''\<rparr>]\<rparr>)"
    by (simp only: rm)
  from other [THEN conjunct2, THEN conjunct2]
  have c3: "keepsAdmin ?a (snd (deleteMember exRt adminTrip (JStr ''b''))) \<and>
     keepsAdmin ?a (snd (deleteApprove exRt adminTrip (JStr ''d2'') (JStr ''approve'')))" .
  from h i0 c1 j0 c2 c3 show ?thesis by (simp only: simp_thms)
qed

end
